theory Spec2Isabelle
  imports Main "HOL-Library.AList" "HOL-Library.List_Lexorder" "HOL-Library.Char_ord"
begin

section \<open>The automaton as loaded from JSON\<close>

text \<open>
  The dictionary read by \<^verbatim>\<open>_carregar_json\<close>. A JSON object is an insertion-ordered
  dictionary with distinct keys; it is kept as an association list and read with
  \<^const>\<open>map_of\<close>. The same shape is used for the dictionary \<^verbatim>\<open>afd_minimizado\<close> that
  \<^verbatim>\<open>_construir_afd_minimizado\<close> returns.
\<close>

type_synonym transicoes_t = "(string \<times> (string \<times> string) list) list"

record afd =
  estados :: "string list"
  alfabeto :: "string list"
  estado_inicial :: string
  estados_finais :: "string list"
  transicoes :: transicoes_t

text \<open>
  The fields of a \<^verbatim>\<open>MinimizadorAFD\<close> object. \<^verbatim>\<open>estados_finais\<close> is a Python set,
  \<^verbatim>\<open>tabela_marcacao\<close> an insertion-ordered dictionary from pairs to flags. The
  history list \<^verbatim>\<open>historico_marcacoes\<close> is only written, never read, and is left out.
\<close>

type_synonym tabela_t = "((string \<times> string) \<times> bool) list"

record minimizador =
  self_afd :: afd
  self_estados :: "string list"
  self_alfabeto :: "string list"
  self_estado_inicial :: string
  self_estados_finais :: "string set"
  self_transicoes :: transicoes_t
  self_tabela_marcacao :: tabela_t

datatype erro = KeyError | ValueError | IndexError

text \<open>\<^verbatim>\<open>__init__\<close>: copies the components, performs no validation.\<close>

definition init :: "afd \<Rightarrow> minimizador" where
  "init a = \<lparr> self_afd = a,
              self_estados = estados a,
              self_alfabeto = alfabeto a,
              self_estado_inicial = estado_inicial a,
              self_estados_finais = set (estados_finais a),
              self_transicoes = transicoes a,
              self_tabela_marcacao = [] \<rparr>"

text \<open>
  The guarded lookup \<^verbatim>\<open>transicoes[e][s]\<close> (after \<^verbatim>\<open>e in transicoes and s in transicoes[e]\<close>),
  which is also \<^verbatim>\<open>transicoes.get(e, {}).get(s)\<close>.
\<close>

definition destino :: "transicoes_t \<Rightarrow> string \<Rightarrow> string \<Rightarrow> string option" where
  "destino T e s = (case map_of T e of None \<Rightarrow> None | Some m \<Rightarrow> map_of m s)"

section \<open>Stage 1: removal of unreachable states\<close>

text \<open>The inner \<^verbatim>\<open>for simbolo in self.alfabeto\<close> of the breadth-first search.\<close>

fun expandir :: "transicoes_t \<Rightarrow> string \<Rightarrow> string list \<Rightarrow> string set \<times> string list
    \<Rightarrow> string set \<times> string list" where
  "expandir T e [] (alc, fila) = (alc, fila)"
| "expandir T e (s # ss) (alc, fila) =
     (case destino T e s of
        None \<Rightarrow> expandir T e ss (alc, fila)
      | Some p \<Rightarrow>
          if p \<notin> alc then expandir T e ss (insert p alc, fila @ [p])
          else expandir T e ss (alc, fila))"

text \<open>All destinations that occur in the transition dictionary.\<close>

definition alvos :: "transicoes_t \<Rightarrow> string set" where
  "alvos T = (\<Union>(e, m) \<in> set T. snd ` set m)"

text \<open>The \<^verbatim>\<open>while fila\<close> loop.\<close>

function busca :: "transicoes_t \<Rightarrow> string list \<Rightarrow> string set \<Rightarrow> string list \<Rightarrow> string set" where
  "busca T alf alc [] = alc"
| "busca T alf alc (e # fila) =
     (case expandir T e alf (alc, fila) of (alc', fila') \<Rightarrow> busca T alf alc' fila')"
  by pat_completeness auto

lemma destino_alvos:
  assumes "destino T e s = Some p"
  shows "p \<in> alvos T"
proof -
  from assms obtain m where m: "map_of T e = Some m" and p: "map_of m s = Some p"
    unfolding destino_def by (auto split: option.splits)
  from m have "(e, m) \<in> set T" by (rule map_of_SomeD)
  moreover from p have "(s, p) \<in> set m" by (rule map_of_SomeD)
  then have "p \<in> snd ` set m" by force
  ultimately show ?thesis unfolding alvos_def by blast
qed

lemma finite_alvos: "finite (alvos T)"
  unfolding alvos_def by auto

lemma expandir_medida:
  "expandir T e ss (alc, fila) = (alc', fila') \<Longrightarrow>
   length fila' + card (alvos T - alc') = length fila + card (alvos T - alc)"
proof (induction ss arbitrary: alc fila)
  case Nil
  then show ?case by simp
next
  case (Cons s ss)
  show ?case
  proof (cases "destino T e s")
    case None
    with Cons show ?thesis by simp
  next
    case (Some p)
    show ?thesis
    proof (cases "p \<in> alc")
      case True
      with Some Cons show ?thesis by simp
    next
      case False
      from Some have pa: "p \<in> alvos T" by (rule destino_alvos)
      from False Some Cons.prems
      have "expandir T e ss (insert p alc, fila @ [p]) = (alc', fila')" by simp
      from Cons.IH [OF this]
      have "length fila' + card (alvos T - alc') =
            Suc (length fila) + card (alvos T - insert p alc)" by simp
      moreover have "alvos T - insert p alc = (alvos T - alc) - {p}" by auto
      moreover have "card ((alvos T - alc) - {p}) = card (alvos T - alc) - 1"
        using pa False by simp
      moreover have "0 < card (alvos T - alc)"
        using pa False finite_alvos [of T] by (auto simp: card_gt_0_iff)
      ultimately show ?thesis by simp
    qed
  qed
qed

termination busca
proof (relation "measure (\<lambda>(T, alf, alc, fila). length fila + card (alvos T - alc))",
    goal_cases)
  case 1
  show ?case by simp
next
  case (2 T alf alc e fila x y)
  then have "expandir T e alf (alc, fila) = (x, y)" by simp
  from expandir_medida [OF this] show ?case by simp
qed

definition encontrar_estados_alcancaveis :: "minimizador \<Rightarrow> string set" where
  "encontrar_estados_alcancaveis m =
     busca (self_transicoes m) (self_alfabeto m)
       {self_estado_inicial m} [self_estado_inicial m]"

text \<open>
  \<^verbatim>\<open>_remover_estados_inalcancaveis\<close>. The new transition dictionary receives one entry per
  kept state that is a key of the old one, in the order of the state list.
\<close>

fun novas_transicoes_alc :: "transicoes_t \<Rightarrow> string list \<Rightarrow> transicoes_t \<Rightarrow> transicoes_t" where
  "novas_transicoes_alc T [] acc = acc"
| "novas_transicoes_alc T (e # es) acc =
     (case map_of T e of
        None \<Rightarrow> novas_transicoes_alc T es acc
      | Some d \<Rightarrow> novas_transicoes_alc T es (AList.update e d acc))"

definition remover_estados_inalcancaveis :: "minimizador \<Rightarrow> minimizador" where
  "remover_estados_inalcancaveis m =
     (let alcancaveis = encontrar_estados_alcancaveis m;
          es = filter (\<lambda>e. e \<in> alcancaveis) (self_estados m)
      in m \<lparr> self_estados := es,
             self_estados_finais := self_estados_finais m \<inter> alcancaveis,
             self_transicoes := novas_transicoes_alc (self_transicoes m) es [] \<rparr>)"

section \<open>Stage 2: the marking table\<close>

text \<open>The pairs \<^verbatim>\<open>(estados[i], estados[j])\<close> for \<^verbatim>\<open>i < j\<close>, in the order of the two loops.\<close>

fun pares_de :: "string list \<Rightarrow> (string \<times> string) list" where
  "pares_de [] = []"
| "pares_de (x # xs) = map (Pair x) xs @ pares_de xs"

text \<open>\<^verbatim>\<open>_inicializar_tabela\<close>: the assignment \<^verbatim>\<open>tabela[par] = False\<close> for each pair.\<close>

definition inicializar_tabela :: "minimizador \<Rightarrow> minimizador" where
  "inicializar_tabela m =
     m \<lparr> self_tabela_marcacao :=
           fold (\<lambda>par t. AList.update par False t) (pares_de (self_estados m))
             (self_tabela_marcacao m) \<rparr>"

text \<open>\<^verbatim>\<open>list.index\<close>, for an element that occurs in the list.\<close>

fun index_de :: "string list \<Rightarrow> string \<Rightarrow> nat" where
  "index_de [] e = 0"
| "index_de (x # xs) e = (if x = e then 0 else Suc (index_de xs e))"

text \<open>\<^verbatim>\<open>_obter_par_ordenado\<close>: a state missing from the list gets index \<open>-1\<close>.\<close>

definition obter_par_ordenado :: "string list \<Rightarrow> string \<Rightarrow> string \<Rightarrow> string \<times> string" where
  "obter_par_ordenado es e1 e2 =
     (let idx1 = (if e1 \<in> set es then int (index_de es e1) else - 1);
          idx2 = (if e2 \<in> set es then int (index_de es e2) else - 1)
      in if idx1 < idx2 then (e1, e2) else (e2, e1))"

text \<open>
  \<^verbatim>\<open>_marcar_pares_triviais\<close>: the loop runs over the keys of the table and assigns
  \<^verbatim>\<open>True\<close> to a pair with exactly one accepting state.
\<close>

definition marcar_trivial :: "string set \<Rightarrow> string \<times> string \<Rightarrow> tabela_t \<Rightarrow> tabela_t" where
  "marcar_trivial F par t =
     (let e1_final = fst par \<in> F; e2_final = snd par \<in> F
      in if e1_final \<noteq> e2_final then AList.update par True t else t)"

definition marcar_pares_triviais :: "minimizador \<Rightarrow> minimizador" where
  "marcar_pares_triviais m =
     m \<lparr> self_tabela_marcacao :=
           fold (marcar_trivial (self_estados_finais m))
             (map fst (self_tabela_marcacao m)) (self_tabela_marcacao m) \<rparr>"

text \<open>
  The \<^verbatim>\<open>for simbolo in self.alfabeto\<close> loop of \<^verbatim>\<open>_marcar_pares_iterativamente\<close> for one
  unmarked pair: the result tells whether the loop reaches the marking assignment (and
  its \<^verbatim>\<open>break\<close>). A symbol with a missing destination is passed over by \<^verbatim>\<open>continue\<close>.
\<close>

fun varrer_simbolos :: "transicoes_t \<Rightarrow> string list \<Rightarrow> tabela_t \<Rightarrow> string \<Rightarrow> string
    \<Rightarrow> string list \<Rightarrow> bool" where
  "varrer_simbolos T es t e1 e2 [] = False"
| "varrer_simbolos T es t e1 e2 (s # ss) =
     (case destino T e1 s of
        None \<Rightarrow> varrer_simbolos T es t e1 e2 ss
      | Some destino1 \<Rightarrow>
         (case destino T e2 s of
            None \<Rightarrow> varrer_simbolos T es t e1 e2 ss
          | Some destino2 \<Rightarrow>
              if destino1 \<noteq> destino2
                 \<and> map_of t (obter_par_ordenado es destino1 destino2) = Some True
              then True
              else varrer_simbolos T es t e1 e2 ss))"

text \<open>
  One pass of the \<^verbatim>\<open>while\<close> body: the \<^verbatim>\<open>for par in self.tabela_marcacao\<close> loop over the
  keys, carrying the table and the flag \<^verbatim>\<open>houve_mudanca\<close>. Marks made earlier in the pass
  are seen by the pairs that follow.
\<close>

fun passada :: "transicoes_t \<Rightarrow> string list \<Rightarrow> string list \<Rightarrow> (string \<times> string) list
    \<Rightarrow> tabela_t \<times> bool \<Rightarrow> tabela_t \<times> bool" where
  "passada T es alf [] (t, houve_mudanca) = (t, houve_mudanca)"
| "passada T es alf (par # ps) (t, houve_mudanca) =
     (if map_of t par = Some True then passada T es alf ps (t, houve_mudanca)
      else if varrer_simbolos T es t (fst par) (snd par) alf
           then passada T es alf ps (AList.update par True t, True)
           else passada T es alf ps (t, houve_mudanca))"

text \<open>The number of entries whose flag is \<^verbatim>\<open>False\<close>.\<close>

definition nao_marcados :: "tabela_t \<Rightarrow> nat" where
  "nao_marcados t = length (filter (\<lambda>kv. \<not> snd kv) t)"

text \<open>
  The \<^verbatim>\<open>while houve_mudanca\<close> loop, carrying the table and the counter \<^verbatim>\<open>iteracao\<close>.
\<close>

function laco :: "transicoes_t \<Rightarrow> string list \<Rightarrow> string list \<Rightarrow> tabela_t \<Rightarrow> nat
    \<Rightarrow> tabela_t \<times> nat" where
  "laco T es alf t iteracao =
     (case passada T es alf (map fst t) (t, False) of
        (t', houve_mudanca) \<Rightarrow>
          if houve_mudanca then laco T es alf t' (Suc iteracao)
          else (t', Suc iteracao))"
  by pat_completeness auto

lemma chaves_update:
  "k \<in> fst ` set t \<Longrightarrow> map fst (AList.update k v t) = map fst t"
  by (simp add: update_keys)

lemma nao_marcados_update:
  "k \<in> fst ` set t \<Longrightarrow> map_of t k \<noteq> Some True \<Longrightarrow>
   Suc (nao_marcados (AList.update k True t)) = nao_marcados t"
proof (induction t)
  case Nil
  then show ?case by simp
next
  case (Cons kv t)
  obtain k' b where kv: "kv = (k', b)" by (cases kv)
  show ?case
  proof (cases "k' = k")
    case True
    with Cons.prems kv have "\<not> b" by simp
    with True kv show ?thesis by (simp add: nao_marcados_def)
  next
    case False
    with Cons.prems kv have "k \<in> fst ` set t" and "map_of t k \<noteq> Some True" by auto
    from Cons.IH [OF this] False kv show ?thesis by (simp add: nao_marcados_def)
  qed
qed

lemma passada_medida:
  "set ps \<subseteq> fst ` set t \<Longrightarrow> passada T es alf ps (t, ch) = (t', ch') \<Longrightarrow>
   map fst t' = map fst t \<and> nao_marcados t' \<le> nao_marcados t
   \<and> (ch' \<and> \<not> ch \<longrightarrow> nao_marcados t' < nao_marcados t)"
proof (induction ps arbitrary: t ch)
  case Nil
  then show ?case by simp
next
  case (Cons par ps)
  from Cons.prems(1) have par: "par \<in> fst ` set t" and ps: "set ps \<subseteq> fst ` set t" by auto
  show ?case
  proof (cases "map_of t par = Some True")
    case True
    with Cons.prems(2) have "passada T es alf ps (t, ch) = (t', ch')" by simp
    from Cons.IH [OF ps this] show ?thesis .
  next
    case nm: False
    show ?thesis
    proof (cases "varrer_simbolos T es t (fst par) (snd par) alf")
      case True
      let ?u = "AList.update par True t"
      from nm True Cons.prems(2) have run: "passada T es alf ps (?u, True) = (t', ch')"
        by simp
      have keys: "map fst ?u = map fst t" using par by (rule chaves_update)
      then have "fst ` set ?u = fst ` set t" by (metis set_map)
      with ps have "set ps \<subseteq> fst ` set ?u" by simp
      from Cons.IH [OF this run]
      have "map fst t' = map fst ?u" and "nao_marcados t' \<le> nao_marcados ?u" by simp_all
      moreover have "Suc (nao_marcados ?u) = nao_marcados t"
        using par nm by (rule nao_marcados_update)
      ultimately show ?thesis using keys by simp
    next
      case False
      with nm Cons.prems(2) have "passada T es alf ps (t, ch) = (t', ch')" by simp
      from Cons.IH [OF ps this] show ?thesis .
    qed
  qed
qed

termination laco
proof (relation "measure (\<lambda>(T, es, alf, t, iteracao). nao_marcados t)", goal_cases)
  case 1
  show ?case by simp
next
  case (2 T es alf t iteracao t' houve_mudanca)
  then have run: "passada T es alf (map fst t) (t, False) = (t', True)" by simp
  have "set (map fst t) \<subseteq> fst ` set t" by simp
  from passada_medida [OF this run] show ?case by simp
qed

text \<open>\<^verbatim>\<open>_marcar_pares_iterativamente\<close>.\<close>

definition marcar_pares_iterativamente :: "minimizador \<Rightarrow> minimizador" where
  "marcar_pares_iterativamente m =
     m \<lparr> self_tabela_marcacao :=
           fst (laco (self_transicoes m) (self_estados m) (self_alfabeto m)
                  (self_tabela_marcacao m) 0) \<rparr>"

text \<open>The value of \<^verbatim>\<open>iteracao\<close> when the loop ends: the number of passes made.\<close>

definition iteracoes :: "minimizador \<Rightarrow> nat" where
  "iteracoes m =
     snd (laco (self_transicoes m) (self_estados m) (self_alfabeto m)
            (self_tabela_marcacao m) 0)"

text \<open>
  \<^verbatim>\<open>exibir_tabela_marcacao\<close> prints the table; \<^verbatim>\<open>max\<close> over an empty state list raises
  \<^verbatim>\<open>ValueError\<close>. Only the outcome is kept.
\<close>

definition exibir_tabela_marcacao :: "minimizador \<Rightarrow> erro + unit" where
  "exibir_tabela_marcacao m = (if self_estados m = [] then Inl ValueError else Inr ())"

section \<open>Stage 3: equivalence classes\<close>

text \<open>
  The scan \<^verbatim>\<open>for classe in classes\<close> that looks for the class of a state. It has no
  \<^verbatim>\<open>break\<close>: the last class that contains the state is the one kept.
\<close>

fun procurar_classe :: "string \<Rightarrow> string set list \<Rightarrow> string set option
    \<Rightarrow> string set option" where
  "procurar_classe e [] achada = achada"
| "procurar_classe e (classe # cs) achada =
     procurar_classe e cs (if e \<in> classe then Some classe else achada)"

text \<open>
  The body of the loop for one unmarked pair: \<^verbatim>\<open>list.remove\<close> deletes the first equal
  element, the union is appended.
\<close>

definition unir_classes :: "string \<times> string \<Rightarrow> string set list \<Rightarrow> string set list" where
  "unir_classes par classes =
     (case procurar_classe (fst par) classes None of
        None \<Rightarrow> classes
      | Some classe1 \<Rightarrow>
         (case procurar_classe (snd par) classes None of
            None \<Rightarrow> classes
          | Some classe2 \<Rightarrow>
              if classe1 \<noteq> classe2
              then remove1 classe2 (remove1 classe1 classes) @ [classe1 \<union> classe2]
              else classes))"

definition passo_classes :: "(string \<times> string) \<times> bool \<Rightarrow> string set list \<Rightarrow> string set list" where
  "passo_classes item classes =
     (if \<not> snd item then unir_classes (fst item) classes else classes)"

text \<open>\<^verbatim>\<open>_encontrar_classes_equivalencia\<close>.\<close>

definition encontrar_classes_equivalencia :: "minimizador \<Rightarrow> string set list" where
  "encontrar_classes_equivalencia m =
     fold passo_classes (self_tabela_marcacao m) (map (\<lambda>e. {e}) (self_estados m))"

section \<open>Stage 4: the minimized automaton\<close>

text \<open>\<^verbatim>\<open>sep.join(xs)\<close>.\<close>

fun juntar :: "string \<Rightarrow> string list \<Rightarrow> string" where
  "juntar sep [] = []"
| "juntar sep [x] = x"
| "juntar sep (x # y # ys) = x @ sep @ juntar sep (y # ys)"

text \<open>\<^verbatim>\<open>nome_classe\<close>: the sorted members, joined by commas, in braces.\<close>

definition nome_classe :: "string set \<Rightarrow> string" where
  "nome_classe classe = ''{'' @ juntar '','' (sorted_list_of_set classe) @ ''}''"

text \<open>
  The dictionary \<^verbatim>\<open>estado_para_classe\<close>: a later class overwrites the entry of an
  earlier one. It is only ever looked up.
\<close>

definition estado_para_classe :: "string set list \<Rightarrow> string \<Rightarrow> string option" where
  "estado_para_classe classes =
     fold (\<lambda>classe d. (\<lambda>e. if e \<in> classe then Some (nome_classe classe) else d e))
       classes Map.empty"

text \<open>
  The order in which Python iterates over a set of strings depends on the hash values of
  the strings, which the interpreter draws anew for each process. The order is
  therefore a parameter \<open>ordem\<close> of the model: \<open>ordem S\<close> is the list \<^verbatim>\<open>list(S)\<close>.
  It is used for \<^verbatim>\<open>list(classe)[0]\<close> and for \<^verbatim>\<open>list(set(...))\<close>.
\<close>

definition ordem_valida :: "(string set \<Rightarrow> string list) \<Rightarrow> bool" where
  "ordem_valida ordem = (\<forall>S. finite S \<longrightarrow> set (ordem S) = S \<and> distinct (ordem S))"

text \<open>The \<^verbatim>\<open>for simbolo in self.alfabeto\<close> loop that fills the dictionary of one class.\<close>

fun transicoes_classe :: "transicoes_t \<Rightarrow> (string \<Rightarrow> string option) \<Rightarrow> string \<Rightarrow> string list
    \<Rightarrow> (string \<times> string) list \<Rightarrow> erro + (string \<times> string) list" where
  "transicoes_classe T epc representante [] d = Inr d"
| "transicoes_classe T epc representante (s # ss) d =
     (case destino T representante s of
        None \<Rightarrow> transicoes_classe T epc representante ss d
      | Some destino_antigo \<Rightarrow>
         (case epc destino_antigo of
            None \<Rightarrow> Inl KeyError
          | Some destino_novo \<Rightarrow>
              transicoes_classe T epc representante ss (AList.update s destino_novo d)))"

text \<open>The \<^verbatim>\<open>for classe in classes\<close> loop that builds \<^verbatim>\<open>novas_transicoes\<close>.\<close>

fun transicoes_novas :: "(string set \<Rightarrow> string list) \<Rightarrow> transicoes_t
    \<Rightarrow> (string \<Rightarrow> string option) \<Rightarrow> string list \<Rightarrow> string set list \<Rightarrow> transicoes_t
    \<Rightarrow> erro + transicoes_t" where
  "transicoes_novas ordem T epc alf [] nt = Inr nt"
| "transicoes_novas ordem T epc alf (classe # cs) nt =
     (case ordem classe of
        [] \<Rightarrow> Inl IndexError
      | representante # _ \<Rightarrow>
         (case transicoes_classe T epc representante alf [] of
            Inl e \<Rightarrow> Inl e
          | Inr d \<Rightarrow> transicoes_novas ordem T epc alf cs
                      (AList.update (nome_classe classe) d nt)))"

text \<open>\<^verbatim>\<open>_construir_afd_minimizado\<close>.\<close>

definition construir_afd_minimizado :: "(string set \<Rightarrow> string list) \<Rightarrow> minimizador
    \<Rightarrow> string set list \<Rightarrow> erro + afd" where
  "construir_afd_minimizado ordem m classes =
     (let epc = estado_para_classe classes;
          novos_estados = map nome_classe classes
      in case epc (self_estado_inicial m) of
           None \<Rightarrow> Inl KeyError
         | Some novo_estado_inicial \<Rightarrow>
             if \<exists>ef \<in> self_estados_finais m. epc ef = None then Inl KeyError
             else
               let novos_estados_finais =
                     ordem (Option.these (epc ` self_estados_finais m))
               in case transicoes_novas ordem (self_transicoes m) epc (self_alfabeto m)
                         classes [] of
                    Inl e \<Rightarrow> Inl e
                  | Inr novas_transicoes \<Rightarrow>
                      Inr \<lparr> estados = novos_estados,
                            alfabeto = self_alfabeto m,
                            estado_inicial = novo_estado_inicial,
                            estados_finais = novos_estados_finais,
                            transicoes = novas_transicoes \<rparr>)"

section \<open>The whole run\<close>

text \<open>
  The object state after stages 1 and 2 up to the trivial marks, and after the
  iteration.
\<close>

definition apos_triviais :: "afd \<Rightarrow> minimizador" where
  "apos_triviais a =
     marcar_pares_triviais (inicializar_tabela (remover_estados_inalcancaveis (init a)))"

definition apos_iteracao :: "afd \<Rightarrow> minimizador" where
  "apos_iteracao a = marcar_pares_iterativamente (apos_triviais a)"

text \<open>
  \<^verbatim>\<open>MinimizadorAFD(caminho).minimizar()\<close> up to the value \<^verbatim>\<open>afd_minimizado\<close>. Writing the
  JSON file and drawing the two pictures come after it and are left out.
\<close>

definition minimizar :: "(string set \<Rightarrow> string list) \<Rightarrow> afd \<Rightarrow> erro + afd" where
  "minimizar ordem a =
     (case exibir_tabela_marcacao (apos_triviais a) of
        Inl e \<Rightarrow> Inl e
      | Inr _ \<Rightarrow>
         (case exibir_tabela_marcacao (apos_iteracao a) of
            Inl e \<Rightarrow> Inl e
          | Inr _ \<Rightarrow>
              construir_afd_minimizado ordem (apos_iteracao a)
                (encontrar_classes_equivalencia (apos_iteracao a))))"

section \<open>Language of a state\<close>

text \<open>
  The source has no function that runs the automaton. The words accepted from a state
  are those of the standard reading of the transition dictionary: a missing entry is
  "no edge", so the word is rejected; after the last symbol the state must be accepting.
\<close>

fun aceita :: "transicoes_t \<Rightarrow> string set \<Rightarrow> string \<Rightarrow> string list \<Rightarrow> bool" where
  "aceita T F e [] = (e \<in> F)"
| "aceita T F e (s # w) =
     (case destino T e s of None \<Rightarrow> False | Some e' \<Rightarrow> aceita T F e' w)"

text \<open>
  Some word over the alphabet is accepted from one of the two states and not from the
  other.
\<close>

definition distinguivel :: "transicoes_t \<Rightarrow> string set \<Rightarrow> string list \<Rightarrow> string \<Rightarrow> string
    \<Rightarrow> bool" where
  "distinguivel T F alf p q =
     (\<exists>w. set w \<subseteq> set alf \<and> aceita T F p w \<noteq> aceita T F q w)"

section \<open>Notions used in the statements\<close>

text \<open>The reachable states of an automaton, as a set and as the pruned state list.\<close>

definition alcancaveis_de :: "afd \<Rightarrow> string set" where
  "alcancaveis_de a = encontrar_estados_alcancaveis (init a)"

definition estados_alcancaveis :: "afd \<Rightarrow> string list" where
  "estados_alcancaveis a = filter (\<lambda>e. e \<in> alcancaveis_de a) (estados a)"

text \<open>The pairs whose flag is \<^verbatim>\<open>True\<close>.\<close>

definition marcados :: "tabela_t \<Rightarrow> (string \<times> string) set" where
  "marcados t = {par. map_of t par = Some True}"

text \<open>Every marked pair of the table is a pair of distinguishable states.\<close>

definition marcas_corretas :: "transicoes_t \<Rightarrow> string set \<Rightarrow> string list \<Rightarrow> tabela_t \<Rightarrow> bool" where
  "marcas_corretas T F alf t =
     (\<forall>p q. map_of t (p, q) = Some True \<longrightarrow> distinguivel T F alf p q)"

text \<open>The entries of the table with flag \<^verbatim>\<open>False\<close>, between listed states.\<close>

definition pares_nao_marcados :: "string list \<Rightarrow> tabela_t \<Rightarrow> (string \<times> string) set" where
  "pares_nao_marcados es t =
     {par. (par, False) \<in> set t \<and> fst par \<in> set es \<and> snd par \<in> set es}"

text \<open>Two states lie in one class of a class list.\<close>

definition mesma_classe :: "string set list \<Rightarrow> string \<Rightarrow> string \<Rightarrow> bool" where
  "mesma_classe cs x y = (\<exists>c\<in>set cs. x \<in> c \<and> y \<in> c)"

text \<open>
  Two states are linked by a chain of pairs of \<open>R\<close>, each taken in either direction
  (the chain may be empty).
\<close>

definition ligados :: "(string \<times> string) set \<Rightarrow> string \<Rightarrow> string \<Rightarrow> bool" where
  "ligados R x y = ((x, y) \<in> (R \<union> R\<inverse>)\<^sup>*)"

text \<open>Invariants of the class list while the table is traversed.\<close>

definition classes_ligadas :: "(string \<times> string) set \<Rightarrow> string set list \<Rightarrow> bool" where
  "classes_ligadas R cs = (\<forall>c\<in>set cs. \<forall>x\<in>c. \<forall>y\<in>c. ligados R x y)"

definition disjuntas :: "string set list \<Rightarrow> bool" where
  "disjuntas cs = (distinct cs \<and> (\<forall>c\<in>set cs. \<forall>d\<in>set cs. c \<noteq> d \<longrightarrow> c \<inter> d = {}))"

text \<open>Every class is finite and not empty.\<close>

definition classes_finitas :: "string set list \<Rightarrow> bool" where
  "classes_finitas cs = (\<forall>c\<in>set cs. finite c \<and> c \<noteq> {})"

text \<open>
  The automaton is complete on its reachable states: every listed state that is reached
  has, for every symbol of the alphabet, a transition to a listed state.
\<close>

definition afd_completo :: "afd \<Rightarrow> bool" where
  "afd_completo a =
     (\<forall>e\<in>set (estados_alcancaveis a). \<forall>s\<in>set (alfabeto a).
        \<exists>d\<in>set (estados a). destino (transicoes a) e s = Some d)"

text \<open>
  Every destination of a reachable state, on a symbol of the alphabet, is a listed state.
\<close>

definition destinos_listados :: "afd \<Rightarrow> bool" where
  "destinos_listados a =
     (\<forall>e\<in>alcancaveis_de a. \<forall>s\<in>set (alfabeto a). \<forall>d.
        destino (transicoes a) e s = Some d \<longrightarrow> d \<in> set (estados a))"

text \<open>
  Well-formedness of an automaton dictionary: the start state, the accepting states and
  every source and destination of the transition dictionary are listed states.
\<close>

definition bem_formado :: "afd \<Rightarrow> bool" where
  "bem_formado r =
     (estado_inicial r \<in> set (estados r)
      \<and> set (estados_finais r) \<subseteq> set (estados r)
      \<and> (\<forall>(e, d) \<in> set (transicoes r).
            e \<in> set (estados r) \<and> (\<forall>(s, e') \<in> set d. e' \<in> set (estados r))))"

text \<open>
  Every class that contains a state is included in the last class of the list that
  contains it (the one that \<^const>\<open>procurar_classe\<close> finds).
\<close>

definition encaixadas :: "string set list \<Rightarrow> bool" where
  "encaixadas cs =
     (\<forall>c\<in>set cs. \<forall>x\<in>c. \<exists>l. procurar_classe x cs None = Some l \<and> c \<subseteq> l)"

section \<open>Concrete automata\<close>

text \<open>Scenario A: \<open>q3\<close> cannot be reached from \<open>q0\<close>.\<close>

definition cenario_a :: afd where
  "cenario_a =
     \<lparr> estados = [''q0'', ''q1'', ''q2'', ''q3''],
       alfabeto = [''a'', ''b''],
       estado_inicial = ''q0'',
       estados_finais = [''q2''],
       transicoes = [(''q0'', [(''a'', ''q1''), (''b'', ''q0'')]),
                     (''q1'', [(''a'', ''q2''), (''b'', ''q0'')]),
                     (''q2'', [(''a'', ''q2''), (''b'', ''q2'')]),
                     (''q3'', [(''a'', ''q3''), (''b'', ''q3'')])] \<rparr>"

text \<open>
  A partial automaton: \<open>r\<close>, \<open>t\<close> and \<open>f\<close> have no outgoing transition, \<open>q\<close> has one.
\<close>

definition afd_parcial :: afd where
  "afd_parcial =
     \<lparr> estados = [''p'', ''q'', ''r'', ''t'', ''f''],
       alfabeto = [''a'', ''b'', ''c''],
       estado_inicial = ''p'',
       estados_finais = [''f''],
       transicoes = [(''p'', [(''a'', ''f''), (''b'', ''r''), (''c'', ''q'')]),
                     (''q'', [(''a'', ''t'')])] \<rparr>"

text \<open>A complete automaton with two accepting states that are not equivalent.\<close>

definition afd_dois_finais :: afd where
  "afd_dois_finais =
     \<lparr> estados = [''x'', ''y'', ''z''],
       alfabeto = [''a''],
       estado_inicial = ''x'',
       estados_finais = [''x'', ''y''],
       transicoes = [(''x'', [(''a'', ''y'')]),
                     (''y'', [(''a'', ''z'')]),
                     (''z'', [(''a'', ''z'')])] \<rparr>"


text \<open>An accepting state that is not in the state list.\<close>

definition afd_final_fora :: afd where
  "afd_final_fora =
     \<lparr> estados = [''q0''],
       alfabeto = [''a''],
       estado_inicial = ''q0'',
       estados_finais = [''q0'', ''x''],
       transicoes = [(''q0'', [(''a'', ''q0'')])] \<rparr>"

text \<open>A start state that is not in the state list.\<close>

definition afd_inicial_fora :: afd where
  "afd_inicial_fora =
     \<lparr> estados = [''q1''],
       alfabeto = [''a''],
       estado_inicial = ''q0'',
       estados_finais = [],
       transicoes = [(''q0'', [(''a'', ''q1'')]), (''q1'', [(''a'', ''q1'')])] \<rparr>"

text \<open>A second iteration order: the reverse of the sorted one.\<close>

definition ordem_inversa :: "string set \<Rightarrow> string list" where
  "ordem_inversa S = rev (sorted_list_of_set S)"

section \<open>Iteration orders\<close>

lemma ordem_unitario:
  assumes "ordem_valida ordem"
  shows "ordem {x} = [x]"
proof -
  from assms have s: "set (ordem {x}) = {x}" and d: "distinct (ordem {x})"
    unfolding ordem_valida_def by auto
  show ?thesis
  proof (cases "ordem {x}")
    case Nil
    with s show ?thesis by simp
  next
    case (Cons y ys)
    with s d have "y = x" and "set ys \<subseteq> {x}" and "y \<notin> set ys" by auto
    then have "ys = []" by (cases ys) auto
    with Cons \<open>y = x\<close> show ?thesis by simp
  qed
qed

lemma ordem_valida_sorted: "ordem_valida sorted_list_of_set"
  unfolding ordem_valida_def by simp

section \<open>Scenario A\<close>

lemma cenario_a_triviais:
  "self_estados (apos_triviais cenario_a) = [''q0'', ''q1'', ''q2'']"
  by code_simp

lemma cenario_a_iteracao:
  "apos_iteracao cenario_a =
     \<lparr> self_afd = cenario_a,
       self_estados = [''q0'', ''q1'', ''q2''],
       self_alfabeto = [''a'', ''b''],
       self_estado_inicial = ''q0'',
       self_estados_finais = {''q2''},
       self_transicoes = [(''q0'', [(''a'', ''q1''), (''b'', ''q0'')]),
                          (''q1'', [(''a'', ''q2''), (''b'', ''q0'')]),
                          (''q2'', [(''a'', ''q2''), (''b'', ''q2'')])],
       self_tabela_marcacao = [((''q0'', ''q1''), True), ((''q0'', ''q2''), True),
                               ((''q1'', ''q2''), True)] \<rparr>"
  by code_simp

lemma cenario_a_classes:
  "encontrar_classes_equivalencia (apos_iteracao cenario_a) = [{''q0''}, {''q1''}, {''q2''}]"
  by code_simp

lemma cenario_a_alcancaveis:
  "encontrar_estados_alcancaveis (init cenario_a) = {''q0'', ''q1'', ''q2''}"
  by code_simp

lemma cenario_a_minimizar:
  assumes "ordem_valida ordem"
  shows "minimizar ordem cenario_a =
     Inr \<lparr> estados = [''{q0}'', ''{q1}'', ''{q2}''],
           alfabeto = [''a'', ''b''],
           estado_inicial = ''{q0}'',
           estados_finais = [''{q2}''],
           transicoes = [(''{q0}'', [(''a'', ''{q1}''), (''b'', ''{q0}'')]),
                         (''{q1}'', [(''a'', ''{q2}''), (''b'', ''{q0}'')]),
                         (''{q2}'', [(''a'', ''{q2}''), (''b'', ''{q2}'')])] \<rparr>"
  unfolding minimizar_def exibir_tabela_marcacao_def cenario_a_triviais cenario_a_classes
  using assms
  apply (simp add: cenario_a_iteracao)
  apply (simp add: construir_afd_minimizado_def estado_para_classe_def nome_classe_def
      ordem_unitario destino_def)
  done

text \<open>
  Claim C2. On the automaton of scenario A, whatever the iteration order of sets: the
  search does not reach \<open>q3\<close>, which is dropped from the state list; the classes are the
  three singletons of \<open>q0\<close>, \<open>q1\<close> and \<open>q2\<close>, so \<open>q0\<close> and \<open>q1\<close> are not merged; the
  result has exactly three states, and the class of \<open>q2\<close> is accepting and loops to
  itself on both symbols.
\<close>

theorem cenario_a_resultado:
  assumes "ordem_valida ordem"
  shows "''q3'' \<notin> encontrar_estados_alcancaveis (init cenario_a)
    \<and> self_estados (remover_estados_inalcancaveis (init cenario_a)) = [''q0'', ''q1'', ''q2'']
    \<and> encontrar_classes_equivalencia (apos_iteracao cenario_a)
        = [{''q0''}, {''q1''}, {''q2''}]
    \<and> (\<exists>r. minimizar ordem cenario_a = Inr r
         \<and> estados r = [''{q0}'', ''{q1}'', ''{q2}'']
         \<and> length (estados r) = 3
         \<and> estados_finais r = [''{q2}'']
         \<and> destino (transicoes r) ''{q2}'' ''a'' = Some ''{q2}''
         \<and> destino (transicoes r) ''{q2}'' ''b'' = Some ''{q2}'')"
proof -
  have "''q3'' \<notin> encontrar_estados_alcancaveis (init cenario_a)"
    unfolding cenario_a_alcancaveis by simp
  moreover have "self_estados (remover_estados_inalcancaveis (init cenario_a))
      = [''q0'', ''q1'', ''q2'']"
    unfolding remover_estados_inalcancaveis_def cenario_a_alcancaveis
    by (simp add: init_def cenario_a_def)
  moreover note cenario_a_classes
  moreover have "\<exists>r. minimizar ordem cenario_a = Inr r
         \<and> estados r = [''{q0}'', ''{q1}'', ''{q2}'']
         \<and> length (estados r) = 3
         \<and> estados_finais r = [''{q2}'']
         \<and> destino (transicoes r) ''{q2}'' ''a'' = Some ''{q2}''
         \<and> destino (transicoes r) ''{q2}'' ''b'' = Some ''{q2}''"
    unfolding cenario_a_minimizar [OF assms] by (simp add: destino_def)
  ultimately show ?thesis by blast
qed

theorem cenario_a_resultado_witness:
  "ordem_valida sorted_list_of_set
    \<and> ''q3'' \<notin> encontrar_estados_alcancaveis (init cenario_a)
    \<and> (\<exists>r. minimizar sorted_list_of_set cenario_a = Inr r \<and> length (estados r) = 3)"
  using cenario_a_resultado [OF ordem_valida_sorted] ordem_valida_sorted by blast

section \<open>The marks only grow\<close>

declare laco.simps [simp del]

lemma map_of_update_True:
  "map_of t p = Some True \<Longrightarrow> map_of (AList.update k True t) p = Some True"
  by (simp add: update_conv')

lemma marcar_trivial_mono:
  "map_of t p = Some True \<Longrightarrow> map_of (marcar_trivial F par t) p = Some True"
  by (simp add: marcar_trivial_def Let_def map_of_update_True)

lemma fold_marcar_trivial_mono:
  "map_of t p = Some True \<Longrightarrow> map_of (fold (marcar_trivial F) ks t) p = Some True"
  by (induction ks arbitrary: t) (simp_all add: marcar_trivial_mono)

lemma passada_mono:
  "map_of t p = Some True \<Longrightarrow> map_of (fst (passada T es alf ps (t, ch))) p = Some True"
proof (induction ps arbitrary: t ch)
  case Nil
  then show ?case by simp
next
  case (Cons par ps)
  then show ?case by (simp add: map_of_update_True)
qed

lemma passada_chaves:
  "set ps \<subseteq> fst ` set t \<Longrightarrow> map fst (fst (passada T es alf ps (t, ch))) = map fst t"
  using passada_medida [of ps t T es alf ch] by (cases "passada T es alf ps (t, ch)") simp

lemma laco_inv:
  assumes "P t"
    and "\<And>u. P u \<Longrightarrow> P (fst (passada T es alf (map fst u) (u, False)))"
  shows "P (fst (laco T es alf t n))"
  using assms
proof (induction T es alf t n rule: laco.induct)
  case (1 T es alf t iteracao)
  obtain t' ch where run: "passada T es alf (map fst t) (t, False) = (t', ch)"
    by (cases "passada T es alf (map fst t) (t, False)")
  from "1.prems"(2) [OF "1.prems"(1)] run have P': "P t'" by simp
  show ?case
  proof (cases ch)
    case True
    from "1.IH" [OF run [symmetric] True P' "1.prems"(2)] run True
    show ?thesis by (simp add: laco.simps [of T es alf t])
  next
    case False
    with run P' show ?thesis by (simp add: laco.simps [of T es alf t])
  qed
qed

lemma laco_mono:
  "map_of t p = Some True \<Longrightarrow> map_of (fst (laco T es alf t n)) p = Some True"
  by (rule laco_inv [where P = "\<lambda>u. map_of u p = Some True"]) (simp_all add: passada_mono)

lemma laco_chaves: "map fst (fst (laco T es alf t n)) = map fst t"
proof (rule laco_inv [where P = "\<lambda>u. map fst u = map fst t"])
  show "map fst t = map fst t" ..
next
  fix u :: tabela_t
  assume u: "map fst u = map fst t"
  have "set (map fst u) \<subseteq> fst ` set u" by simp
  from passada_chaves [OF this] u
  show "map fst (fst (passada T es alf (map fst u) (u, False))) = map fst t" by simp
qed

text \<open>
  Claim C4. Marking only grows: a pair that is marked stays marked through the trivial
  marking, through every pass of the iteration (from any point of a pass on), and
  through the whole iteration.
\<close>

theorem marcacao_monotona:
  "marcados (self_tabela_marcacao m) \<subseteq> marcados (self_tabela_marcacao (marcar_pares_triviais m))
   \<and> marcados t \<subseteq> marcados (fst (passada T es alf ps (t, ch)))
   \<and> marcados (self_tabela_marcacao m)
       \<subseteq> marcados (self_tabela_marcacao (marcar_pares_iterativamente m))"
  unfolding marcados_def marcar_pares_triviais_def marcar_pares_iterativamente_def
  by (auto simp: fold_marcar_trivial_mono passada_mono laco_mono)

section \<open>The iteration ends at a fixed point\<close>

lemma passada_flag: "snd (passada T es alf ps (t, True)) = True"
  by (induction ps arbitrary: t) simp_all

lemma passada_sem_mudanca:
  "passada T es alf ps (t, ch) = (t', False) \<Longrightarrow>
   t' = t \<and> \<not> ch \<and>
   (\<forall>par\<in>set ps. map_of t par = Some True
        \<or> \<not> varrer_simbolos T es t (fst par) (snd par) alf)"
proof (induction ps arbitrary: t ch)
  case Nil
  then show ?case by simp
next
  case (Cons par ps)
  show ?case
  proof (cases "map_of t par = Some True")
    case True
    with Cons.prems have "passada T es alf ps (t, ch) = (t', False)" by simp
    from Cons.IH [OF this] True show ?thesis by simp
  next
    case nm: False
    show ?thesis
    proof (cases "varrer_simbolos T es t (fst par) (snd par) alf")
      case True
      with nm Cons.prems
      have "passada T es alf ps (AList.update par True t, True) = (t', False)" by simp
      then have "snd (passada T es alf ps (AList.update par True t, True)) = False" by simp
      with passada_flag show ?thesis by simp
    next
      case False
      with nm Cons.prems have "passada T es alf ps (t, ch) = (t', False)" by simp
      from Cons.IH [OF this] False show ?thesis by simp
    qed
  qed
qed

lemma laco_ponto_fixo:
  "passada T es alf (map fst (fst (laco T es alf t n))) (fst (laco T es alf t n), False)
     = (fst (laco T es alf t n), False)"
proof (induction T es alf t n rule: laco.induct)
  case (1 T es alf t iteracao)
  obtain t' ch where run: "passada T es alf (map fst t) (t, False) = (t', ch)"
    by (cases "passada T es alf (map fst t) (t, False)")
  show ?case
  proof (cases ch)
    case True
    from "1.IH" [OF run [symmetric] True] run True
    show ?thesis by (simp add: laco.simps [of T es alf t])
  next
    case False
    with run passada_sem_mudanca [of T es alf "map fst t" t False t'] have "t' = t" by simp
    with run False show ?thesis by (simp add: laco.simps [of T es alf t])
  qed
qed

lemma laco_limite: "snd (laco T es alf t n) \<le> n + Suc (nao_marcados t)"
proof (induction T es alf t n rule: laco.induct)
  case (1 T es alf t iteracao)
  obtain t' ch where run: "passada T es alf (map fst t) (t, False) = (t', ch)"
    by (cases "passada T es alf (map fst t) (t, False)")
  show ?case
  proof (cases ch)
    case True
    have "set (map fst t) \<subseteq> fst ` set t" by simp
    from passada_medida [OF this run] True have "nao_marcados t' < nao_marcados t" by simp
    with "1.IH" [OF run [symmetric] True] run True
    show ?thesis by (simp add: laco.simps [of T es alf t])
  next
    case False
    with run show ?thesis by (simp add: laco.simps [of T es alf t])
  qed
qed

text \<open>
  Claim C9. The iteration ends: the number of passes it makes is at most the number of
  unmarked entries of the table it starts from, plus one, and a further pass over the
  table it returns marks nothing. (That \<^const>\<open>laco\<close> is a total function was shown with
  the measure \<^const>\<open>nao_marcados\<close>, which a pass that marks something decreases.)
\<close>

theorem iteracao_termina:
  "iteracoes m \<le> Suc (nao_marcados (self_tabela_marcacao m))
   \<and> passada (self_transicoes m) (self_estados m) (self_alfabeto m)
        (map fst (self_tabela_marcacao (marcar_pares_iterativamente m)))
        (self_tabela_marcacao (marcar_pares_iterativamente m), False)
      = (self_tabela_marcacao (marcar_pares_iterativamente m), False)"
  unfolding iteracoes_def marcar_pares_iterativamente_def
  using laco_limite [of "self_transicoes m" "self_estados m" "self_alfabeto m"
      "self_tabela_marcacao m" 0]
  by (simp add: laco_ponto_fixo)

lemma cenario_a_nao_marcados:
  "nao_marcados (self_tabela_marcacao (apos_triviais cenario_a)) = 1"
  by code_simp

theorem iteracao_termina_witness:
  "iteracoes (apos_triviais cenario_a) \<le> 2"
  using iteracao_termina [of "apos_triviais cenario_a"]
  by (simp add: cenario_a_nao_marcados)

section \<open>Runs on the concrete automata\<close>

lemma ordem_valida_inversa: "ordem_valida ordem_inversa"
  unfolding ordem_valida_def ordem_inversa_def by simp

lemma parcial_triviais:
  "apos_triviais afd_parcial =
     \<lparr> self_afd = afd_parcial,
       self_estados = [''p'', ''q'', ''r'', ''t'', ''f''],
       self_alfabeto = [''a'', ''b'', ''c''],
       self_estado_inicial = ''p'',
       self_estados_finais = {''f''},
       self_transicoes = [(''p'', [(''a'', ''f''), (''b'', ''r''), (''c'', ''q'')]),
                          (''q'', [(''a'', ''t'')])],
       self_tabela_marcacao =
         [((''p'', ''q''), False), ((''p'', ''r''), False), ((''p'', ''t''), False),
          ((''p'', ''f''), True), ((''q'', ''r''), False), ((''q'', ''t''), False),
          ((''q'', ''f''), True), ((''r'', ''t''), False), ((''r'', ''f''), True),
          ((''t'', ''f''), True)] \<rparr>"
  by code_simp

lemma parcial_iteracao:
  "apos_iteracao afd_parcial =
     \<lparr> self_afd = afd_parcial,
       self_estados = [''p'', ''q'', ''r'', ''t'', ''f''],
       self_alfabeto = [''a'', ''b'', ''c''],
       self_estado_inicial = ''p'',
       self_estados_finais = {''f''},
       self_transicoes = [(''p'', [(''a'', ''f''), (''b'', ''r''), (''c'', ''q'')]),
                          (''q'', [(''a'', ''t'')])],
       self_tabela_marcacao =
         [((''p'', ''q''), True), ((''p'', ''r''), False), ((''p'', ''t''), False),
          ((''p'', ''f''), True), ((''q'', ''r''), False), ((''q'', ''t''), False),
          ((''q'', ''f''), True), ((''r'', ''t''), False), ((''r'', ''f''), True),
          ((''t'', ''f''), True)] \<rparr>"
  by code_simp

lemma parcial_classes:
  "encontrar_classes_equivalencia (apos_iteracao afd_parcial)
     = [{''f''}, {''p'', ''q'', ''r'', ''t''}]"
  by code_simp


lemma parcial_minimizar:
  "minimizar sorted_list_of_set afd_parcial =
     Inr \<lparr> estados = [''{f}'', ''{p,q,r,t}''],
           alfabeto = [''a'', ''b'', ''c''],
           estado_inicial = ''{p,q,r,t}'',
           estados_finais = [''{f}''],
           transicoes = [(''{f}'', []),
                         (''{p,q,r,t}'', [(''a'', ''{f}''), (''b'', ''{p,q,r,t}''),
                                          (''c'', ''{p,q,r,t}'')])] \<rparr>"
  by code_simp

lemma dois_finais_sorted:
  "minimizar sorted_list_of_set afd_dois_finais =
     Inr \<lparr> estados = [''{x}'', ''{y}'', ''{z}''],
           alfabeto = [''a''],
           estado_inicial = ''{x}'',
           estados_finais = [''{x}'', ''{y}''],
           transicoes = [(''{x}'', [(''a'', ''{y}'')]), (''{y}'', [(''a'', ''{z}'')]),
                         (''{z}'', [(''a'', ''{z}'')])] \<rparr>"
  by code_simp

lemma dois_finais_inversa:
  "minimizar ordem_inversa afd_dois_finais =
     Inr \<lparr> estados = [''{x}'', ''{y}'', ''{z}''],
           alfabeto = [''a''],
           estado_inicial = ''{x}'',
           estados_finais = [''{y}'', ''{x}''],
           transicoes = [(''{x}'', [(''a'', ''{y}'')]), (''{y}'', [(''a'', ''{z}'')]),
                         (''{z}'', [(''a'', ''{z}'')])] \<rparr>"
  by code_simp

lemma final_fora_minimizar:
  "minimizar sorted_list_of_set afd_final_fora =
     Inr \<lparr> estados = [''{q0}''],
           alfabeto = [''a''],
           estado_inicial = ''{q0}'',
           estados_finais = [''{q0}''],
           transicoes = [(''{q0}'', [(''a'', ''{q0}'')])] \<rparr>"
  by code_simp

lemma inicial_fora_minimizar:
  "minimizar sorted_list_of_set afd_inicial_fora = Inl KeyError"
  by code_simp

section \<open>Symbols with a missing destination\<close>

lemma varrer_falso:
  "\<forall>s\<in>set ss. destino T e1 s = None \<or> destino T e2 s = None \<Longrightarrow>
   \<not> varrer_simbolos T es t e1 e2 ss"
  by (induction ss) (auto split: option.splits)

lemma varrer_filtro:
  "varrer_simbolos T es t e1 e2 ss =
   varrer_simbolos T es t e1 e2
     (filter (\<lambda>s. \<not> ((destino T e1 s = None) \<noteq> (destino T e2 s = None))) ss)"
  by (induction ss) (auto split: option.splits)

lemma passada_preserva_nao_marcado:
  assumes "map_of t par = Some False"
    and "\<And>u. \<not> varrer_simbolos T es u (fst par) (snd par) alf"
  shows "map_of (fst (passada T es alf ps (t, ch))) par = Some False"
  using assms(1)
proof (induction ps arbitrary: t ch)
  case Nil
  then show ?case by simp
next
  case (Cons k ps)
  show ?case
  proof (cases "map_of t k \<noteq> Some True \<and> varrer_simbolos T es t (fst k) (snd k) alf")
    case True
    with assms(2) have "k \<noteq> par" by auto
    with Cons.prems have "map_of (AList.update k True t) par = Some False"
      by (simp add: update_conv')
    from Cons.IH [OF this] True show ?thesis by simp
  next
    case False
    with Cons.IH [OF Cons.prems] show ?thesis by auto
  qed
qed

text \<open>
  Claim C3. In the scan of the symbols for an unmarked pair, a symbol for which exactly
  one of the two destinations is missing has no effect: the scan gives the same answer
  with these symbols taken out of the alphabet. Hence a pair for which every symbol has
  a destination missing on some side stays unmarked through the whole iteration.
\<close>

theorem transicao_parcial_nao_marca:
  "varrer_simbolos T es t e1 e2 ss =
     varrer_simbolos T es t e1 e2
       (filter (\<lambda>s. \<not> ((destino T e1 s = None) \<noteq> (destino T e2 s = None))) ss)
   \<and> (map_of t par = Some False
        \<and> (\<forall>s\<in>set alf. destino T (fst par) s = None \<or> destino T (snd par) s = None)
      \<longrightarrow> map_of (fst (laco T es alf t n)) par = Some False)"
proof (intro conjI impI)
  show "varrer_simbolos T es t e1 e2 ss =
     varrer_simbolos T es t e1 e2
       (filter (\<lambda>s. \<not> ((destino T e1 s = None) \<noteq> (destino T e2 s = None))) ss)"
    by (rule varrer_filtro)
next
  assume h: "map_of t par = Some False
        \<and> (\<forall>s\<in>set alf. destino T (fst par) s = None \<or> destino T (snd par) s = None)"
  then have nv: "\<And>u. \<not> varrer_simbolos T es u (fst par) (snd par) alf"
    by (simp add: varrer_falso)
  show "map_of (fst (laco T es alf t n)) par = Some False"
  proof (rule laco_inv [where P = "\<lambda>u. map_of u par = Some False"])
    show "map_of t par = Some False" using h by simp
  next
    fix u :: tabela_t
    assume "map_of u par = Some False"
    then show "map_of (fst (passada T es alf (map fst u) (u, False))) par = Some False"
      using nv by (rule passada_preserva_nao_marcado)
  qed
qed

theorem transicao_parcial_nao_marca_witness:
  "map_of (self_tabela_marcacao (apos_iteracao afd_parcial)) (''p'', ''r'') = Some False"
proof -
  let ?m = "apos_triviais afd_parcial"
  have h: "map_of (self_tabela_marcacao ?m) (''p'', ''r'') = Some False
    \<and> (\<forall>s\<in>set (self_alfabeto ?m).
          destino (self_transicoes ?m) (fst (''p'', ''r'')) s = None
          \<or> destino (self_transicoes ?m) (snd (''p'', ''r'')) s = None)"
    unfolding parcial_triviais by (simp add: destino_def)
  from transicao_parcial_nao_marca [THEN conjunct2, THEN mp, OF h]
  show ?thesis
    unfolding apos_iteracao_def marcar_pares_iterativamente_def by simp
qed

section \<open>Fields after each stage; classes and their names\<close>

lemma campos_triviais:
  "self_estados (apos_triviais a) = estados_alcancaveis a"
  "self_alfabeto (apos_triviais a) = alfabeto a"
  "self_estado_inicial (apos_triviais a) = estado_inicial a"
  "self_estados_finais (apos_triviais a) = set (estados_finais a) \<inter> alcancaveis_de a"
  "self_transicoes (apos_triviais a)
     = novas_transicoes_alc (transicoes a) (estados_alcancaveis a) []"
  unfolding apos_triviais_def marcar_pares_triviais_def inicializar_tabela_def
    remover_estados_inalcancaveis_def estados_alcancaveis_def alcancaveis_de_def
  by (simp_all add: Let_def init_def)

lemma campos_iteracao:
  "self_estados (apos_iteracao a) = estados_alcancaveis a"
  "self_alfabeto (apos_iteracao a) = alfabeto a"
  "self_estado_inicial (apos_iteracao a) = estado_inicial a"
  "self_estados_finais (apos_iteracao a) = set (estados_finais a) \<inter> alcancaveis_de a"
  "self_transicoes (apos_iteracao a)
     = novas_transicoes_alc (transicoes a) (estados_alcancaveis a) []"
  unfolding apos_iteracao_def marcar_pares_iterativamente_def
  by (simp_all add: campos_triviais)

lemma procurar_classe_Some:
  "procurar_classe e cs achada = Some c \<Longrightarrow> (c \<in> set cs \<and> e \<in> c) \<or> achada = Some c"
  by (induction cs arbitrary: achada) (auto split: if_splits)

lemma procurar_classe_None:
  "procurar_classe e cs achada = None \<longleftrightarrow> achada = None \<and> (\<forall>c\<in>set cs. e \<notin> c)"
  by (induction cs arbitrary: achada) auto

lemma procurar_classe_dentro:
  "procurar_classe e cs None = Some c \<Longrightarrow> c \<in> set cs \<and> e \<in> c"
  using procurar_classe_Some [of e cs None c] by simp

lemma unir_classes_casos:
  "unir_classes par cs = cs \<or>
   (\<exists>c1 c2. c1 \<in> set cs \<and> c2 \<in> set cs \<and> c1 \<noteq> c2 \<and> fst par \<in> c1 \<and> snd par \<in> c2
      \<and> procurar_classe (fst par) cs None = Some c1
      \<and> procurar_classe (snd par) cs None = Some c2
      \<and> unir_classes par cs = remove1 c2 (remove1 c1 cs) @ [c1 \<union> c2])"
  unfolding unir_classes_def
  by (auto split: option.splits dest: procurar_classe_dentro)

lemma uniao_remove1:
  assumes "c1 \<in> set cs" and "c2 \<in> set cs"
  shows "\<Union>(set (remove1 c2 (remove1 c1 cs) @ [c1 \<union> c2])) = \<Union>(set cs)"
proof
  show "\<Union>(set (remove1 c2 (remove1 c1 cs) @ [c1 \<union> c2])) \<subseteq> \<Union>(set cs)"
    using assms set_remove1_subset [of c2 "remove1 c1 cs"] set_remove1_subset [of c1 cs]
    by auto
next
  show "\<Union>(set cs) \<subseteq> \<Union>(set (remove1 c2 (remove1 c1 cs) @ [c1 \<union> c2]))"
  proof
    fix x assume "x \<in> \<Union>(set cs)"
    then obtain c where c: "c \<in> set cs" "x \<in> c" by auto
    show "x \<in> \<Union>(set (remove1 c2 (remove1 c1 cs) @ [c1 \<union> c2]))"
    proof (cases "c = c1 \<or> c = c2")
      case True
      with c show ?thesis by auto
    next
      case False
      with c have "c \<in> set (remove1 c2 (remove1 c1 cs))" by simp
      with c show ?thesis by auto
    qed
  qed
qed

lemma uniao_unir_classes: "\<Union>(set (unir_classes par cs)) = \<Union>(set cs)"
  using unir_classes_casos [of par cs] uniao_remove1 by metis

lemma uniao_fold_classes: "\<Union>(set (fold passo_classes t cs)) = \<Union>(set cs)"
  by (induction t arbitrary: cs) (simp_all add: passo_classes_def uniao_unir_classes)

lemma uniao_classes:
  "\<Union>(set (encontrar_classes_equivalencia m)) = set (self_estados m)"
  unfolding encontrar_classes_equivalencia_def uniao_fold_classes by auto

lemma epc_fold_None:
  "fold (\<lambda>classe d. (\<lambda>e. if e \<in> classe then Some (nome_classe classe) else d e)) cs d0 e = None
   \<longleftrightarrow> d0 e = None \<and> e \<notin> \<Union>(set cs)"
  by (induction cs arbitrary: d0) auto

lemma epc_fold_Some:
  "fold (\<lambda>classe d. (\<lambda>e. if e \<in> classe then Some (nome_classe classe) else d e)) cs d0 e = Some n
   \<Longrightarrow> (\<exists>c\<in>set cs. e \<in> c \<and> n = nome_classe c) \<or> d0 e = Some n"
proof (induction cs arbitrary: d0)
  case Nil
  then show ?case by simp
next
  case (Cons c cs)
  let ?d = "\<lambda>e. if e \<in> c then Some (nome_classe c) else d0 e"
  from Cons.prems have "fold (\<lambda>classe d. (\<lambda>e. if e \<in> classe then Some (nome_classe classe)
      else d e)) cs ?d e = Some n" by simp
  from Cons.IH [OF this]
  have "(\<exists>c\<in>set cs. e \<in> c \<and> n = nome_classe c) \<or> ?d e = Some n" .
  then show ?case by (auto split: if_splits)
qed

lemma epc_None: "estado_para_classe cs e = None \<longleftrightarrow> e \<notin> \<Union>(set cs)"
  unfolding estado_para_classe_def epc_fold_None by simp

lemma epc_Some:
  "estado_para_classe cs e = Some n \<Longrightarrow> \<exists>c\<in>set cs. e \<in> c \<and> n = nome_classe c"
  unfolding estado_para_classe_def using epc_fold_Some [of cs Map.empty e n] by simp

section \<open>No validation of the input\<close>

lemma inicial_fora_alcancaveis: "estados_alcancaveis afd_inicial_fora = [''q1'']"
  by code_simp

text \<open>
  Claim C6 fails as stated: \<^const>\<open>init\<close> checks nothing and there is no
  \<^verbatim>\<open>MalformedAutomaton\<close> error. With an accepting state outside the state list (and not
  reachable) the run succeeds; with the start state outside the state list it fails
  only in stage 4, with \<^verbatim>\<open>KeyError\<close>.
\<close>

theorem validacao_ausente:
  "\<not> set (estados_finais afd_final_fora) \<subseteq> set (estados afd_final_fora)
   \<and> minimizar sorted_list_of_set afd_final_fora =
       Inr \<lparr> estados = [''{q0}''],
             alfabeto = [''a''],
             estado_inicial = ''{q0}'',
             estados_finais = [''{q0}''],
             transicoes = [(''{q0}'', [(''a'', ''{q0}'')])] \<rparr>
   \<and> estado_inicial afd_inicial_fora \<notin> set (estados afd_inicial_fora)
   \<and> minimizar sorted_list_of_set afd_inicial_fora = Inl KeyError"
  unfolding final_fora_minimizar inicial_fora_minimizar
  by (simp add: afd_final_fora_def afd_inicial_fora_def)

text \<open>
  Claim C6, amended. When the start state is not in the state list, the run fails, for
  every iteration order: with \<^verbatim>\<open>ValueError\<close> (raised while the table is displayed) when
  no listed state is reachable, and otherwise with \<^verbatim>\<open>KeyError\<close> (raised when stage 4 looks
  up the class of the start state), after the reachability and table stages have run.
\<close>

theorem inicial_fora_falha:
  assumes "estado_inicial a \<notin> set (estados a)"
  shows "minimizar ordem a =
           Inl (if estados_alcancaveis a = [] then ValueError else KeyError)"
proof -
  let ?m = "apos_iteracao a"
  have "estado_inicial a \<notin> set (estados_alcancaveis a)"
    using assms unfolding estados_alcancaveis_def by simp
  then have "estado_para_classe (encontrar_classes_equivalencia ?m) (self_estado_inicial ?m)
      = None"
    unfolding epc_None uniao_classes by (simp add: campos_iteracao)
  then show ?thesis
    unfolding minimizar_def exibir_tabela_marcacao_def construir_afd_minimizado_def
    by (simp add: campos_iteracao campos_triviais Let_def)
qed

theorem inicial_fora_falha_witness:
  "estado_inicial afd_inicial_fora \<notin> set (estados afd_inicial_fora)
   \<and> minimizar ordem_inversa afd_inicial_fora = Inl KeyError"
proof -
  have h: "estado_inicial afd_inicial_fora \<notin> set (estados afd_inicial_fora)"
    by (simp add: afd_inicial_fora_def)
  from inicial_fora_falha [OF h, of ordem_inversa] h show ?thesis
    by (simp add: inicial_fora_alcancaveis)
qed

section \<open>The dictionaries built in stage 4\<close>

lemma set_update_casos:
  "x \<in> set (AList.update k v al) \<Longrightarrow> x = (k, v) \<or> x \<in> set al"
  by (induction al) (auto split: if_splits)

lemma transicoes_classe_valores:
  "transicoes_classe T epc r ss d = Inr d' \<Longrightarrow> (s, v) \<in> set d' \<Longrightarrow>
   (s, v) \<in> set d \<or> (\<exists>x. epc x = Some v)"
proof (induction ss arbitrary: d)
  case Nil
  then show ?case by simp
next
  case (Cons s0 ss)
  show ?case
  proof (cases "destino T r s0")
    case None
    with Cons show ?thesis by simp
  next
    case (Some dst)
    with Cons.prems(1) obtain n where n: "epc dst = Some n"
      and run: "transicoes_classe T epc r ss (AList.update s0 n d) = Inr d'"
      by (auto split: option.splits)
    from Cons.IH [OF run Cons.prems(2)]
    have "(s, v) \<in> set (AList.update s0 n d) \<or> (\<exists>x. epc x = Some v)" .
    then show ?thesis using n by (auto dest: set_update_casos)
  qed
qed

lemma transicoes_classe_mapa:
  "transicoes_classe T epc r ss d = Inr d' \<Longrightarrow>
   map_of d' s =
     (if s \<in> set ss
      then (case destino T r s of None \<Rightarrow> map_of d s | Some dst \<Rightarrow> epc dst)
      else map_of d s)"
proof (induction ss arbitrary: d)
  case Nil
  then show ?case by simp
next
  case (Cons s0 ss)
  show ?case
  proof (cases "destino T r s0")
    case None
    with Cons.prems have "transicoes_classe T epc r ss d = Inr d'" by simp
    from Cons.IH [OF this] None show ?thesis by auto
  next
    case (Some dst)
    with Cons.prems obtain n where n: "epc dst = Some n"
      and run: "transicoes_classe T epc r ss (AList.update s0 n d) = Inr d'"
      by (auto split: option.splits)
    from Cons.IH [OF run] Some n show ?thesis
      by (auto simp: update_conv' split: option.splits)
  qed
qed

lemma transicoes_novas_passo:
  assumes "transicoes_novas ordem T epc alf (c # cs) nt = Inr nt'"
  obtains rep resto d where "ordem c = rep # resto"
    and "transicoes_classe T epc rep alf [] = Inr d"
    and "transicoes_novas ordem T epc alf cs (AList.update (nome_classe c) d nt) = Inr nt'"
  using assms by (auto split: list.splits sum.splits)

lemma transicoes_novas_elementos:
  "transicoes_novas ordem T epc alf cs nt = Inr nt' \<Longrightarrow> (k, d) \<in> set nt' \<Longrightarrow>
   (k, d) \<in> set nt
   \<or> (k \<in> nome_classe ` set cs \<and> (\<forall>(s, v) \<in> set d. \<exists>x. epc x = Some v))"
proof (induction cs arbitrary: nt)
  case Nil
  then show ?case by simp
next
  case (Cons c cs)
  from Cons.prems(1) obtain rep resto d0 where
    d0: "transicoes_classe T epc rep alf [] = Inr d0"
    and run: "transicoes_novas ordem T epc alf cs (AList.update (nome_classe c) d0 nt) = Inr nt'"
    by (rule transicoes_novas_passo)
  from Cons.IH [OF run Cons.prems(2)]
  have "(k, d) \<in> set (AList.update (nome_classe c) d0 nt)
    \<or> (k \<in> nome_classe ` set cs \<and> (\<forall>(s, v) \<in> set d. \<exists>x. epc x = Some v))" .
  moreover have "\<forall>(s, v) \<in> set d0. \<exists>x. epc x = Some v"
    using transicoes_classe_valores [OF d0] by auto
  ultimately show ?case by (auto dest!: set_update_casos)
qed

lemma transicoes_novas_chaves:
  "transicoes_novas ordem1 T epc alf cs nt1 = Inr r1 \<Longrightarrow>
   transicoes_novas ordem2 T epc alf cs nt2 = Inr r2 \<Longrightarrow>
   map fst nt1 = map fst nt2 \<Longrightarrow> map fst r1 = map fst r2"
proof (induction cs arbitrary: nt1 nt2)
  case Nil
  then show ?case by simp
next
  case (Cons c cs)
  from Cons.prems(1) obtain rep1 resto1 d1 where
    run1: "transicoes_novas ordem1 T epc alf cs (AList.update (nome_classe c) d1 nt1) = Inr r1"
    by (rule transicoes_novas_passo)
  from Cons.prems(2) obtain rep2 resto2 d2 where
    run2: "transicoes_novas ordem2 T epc alf cs (AList.update (nome_classe c) d2 nt2) = Inr r2"
    by (rule transicoes_novas_passo)
  have "map fst (AList.update (nome_classe c) d1 nt1)
      = map fst (AList.update (nome_classe c) d2 nt2)"
    using Cons.prems(3) by (simp add: update_keys)
  from Cons.IH [OF run1 run2 this] show ?case .
qed

lemma transicoes_novas_fora:
  "transicoes_novas ordem T epc alf cs nt = Inr nt' \<Longrightarrow> k \<notin> nome_classe ` set cs \<Longrightarrow>
   map_of nt' k = map_of nt k"
proof (induction cs arbitrary: nt)
  case Nil
  then show ?case by simp
next
  case (Cons c cs)
  from Cons.prems(1) obtain rep resto d0 where
    run: "transicoes_novas ordem T epc alf cs (AList.update (nome_classe c) d0 nt) = Inr nt'"
    by (rule transicoes_novas_passo)
  from Cons.IH [OF run] Cons.prems(2) show ?case by (simp add: update_conv')
qed

lemma transicoes_novas_mapa:
  "transicoes_novas ordem T epc alf cs nt = Inr nt' \<Longrightarrow> distinct (map nome_classe cs) \<Longrightarrow>
   c \<in> set cs \<Longrightarrow> ordem c = rep # resto \<Longrightarrow>
   \<exists>d. transicoes_classe T epc rep alf [] = Inr d \<and> map_of nt' (nome_classe c) = Some d"
proof (induction cs arbitrary: nt)
  case Nil
  then show ?case by simp
next
  case (Cons c0 cs)
  from Cons.prems(1) obtain rep0 resto0 d0 where
    o0: "ordem c0 = rep0 # resto0"
    and d0: "transicoes_classe T epc rep0 alf [] = Inr d0"
    and run: "transicoes_novas ordem T epc alf cs (AList.update (nome_classe c0) d0 nt) = Inr nt'"
    by (rule transicoes_novas_passo)
  show ?case
  proof (cases "c = c0")
    case True
    with Cons.prems(4) o0 have "rep0 = rep" by simp
    from Cons.prems(2) have "nome_classe c0 \<notin> nome_classe ` set cs" by auto
    from transicoes_novas_fora [OF run this]
    have "map_of nt' (nome_classe c0) = Some d0" by (simp add: update_conv')
    with d0 True \<open>rep0 = rep\<close> show ?thesis by simp
  next
    case False
    with Cons.prems(3) have "c \<in> set cs" by simp
    moreover from Cons.prems(2) have "distinct (map nome_classe cs)" by simp
    ultimately show ?thesis using Cons.IH [OF run] Cons.prems(4) by blast
  qed
qed

lemma construir_Inr:
  assumes "construir_afd_minimizado ordem m classes = Inr r"
  obtains n nt where "estado_para_classe classes (self_estado_inicial m) = Some n"
    and "\<forall>ef\<in>self_estados_finais m. estado_para_classe classes ef \<noteq> None"
    and "transicoes_novas ordem (self_transicoes m) (estado_para_classe classes)
           (self_alfabeto m) classes [] = Inr nt"
    and "r = \<lparr> estados = map nome_classe classes,
               alfabeto = self_alfabeto m,
               estado_inicial = n,
               estados_finais =
                 ordem (Option.these (estado_para_classe classes ` self_estados_finais m)),
               transicoes = nt \<rparr>"
  using assms unfolding construir_afd_minimizado_def
  by (auto simp: Let_def split: option.splits if_splits sum.splits)

section \<open>The reducer takes the transitions of one representative\<close>

lemma minimizar_Inr:
  assumes "minimizar ordem a = Inr r"
  shows "construir_afd_minimizado ordem (apos_iteracao a)
           (encontrar_classes_equivalencia (apos_iteracao a)) = Inr r"
  using assms unfolding minimizar_def by (auto split: sum.splits)

lemma finais_finitos: "finite (self_estados_finais (apos_iteracao a))"
  by (simp add: campos_iteracao)

lemma these_finito: "finite A \<Longrightarrow> finite (Option.these A)"
  unfolding Option.these_def by simp

lemma these_imagem: "n \<in> Option.these (f ` A) \<longleftrightarrow> (\<exists>x\<in>A. f x = Some n)"
  unfolding Option.these_def by force

lemma construir_finais:
  assumes "ordem_valida ordem" and "finite (self_estados_finais m)"
    and "construir_afd_minimizado ordem m classes = Inr r"
  shows "set (estados_finais r)
         = Option.these (estado_para_classe classes ` self_estados_finais m)"
proof -
  from assms(3) obtain n nt where
    r: "r = \<lparr> estados = map nome_classe classes,
               alfabeto = self_alfabeto m,
               estado_inicial = n,
               estados_finais =
                 ordem (Option.these (estado_para_classe classes ` self_estados_finais m)),
               transicoes = nt \<rparr>"
    by (rule construir_Inr)
  have "finite (Option.these (estado_para_classe classes ` self_estados_finais m))"
    using assms(2) by (simp add: these_finito)
  with assms(1) r show ?thesis unfolding ordem_valida_def by simp
qed

lemma parcial_construir:
  "construir_afd_minimizado sorted_list_of_set (apos_iteracao afd_parcial)
     [{''f''}, {''p'', ''q'', ''r'', ''t''}] =
     Inr \<lparr> estados = [''{f}'', ''{p,q,r,t}''],
           alfabeto = [''a'', ''b'', ''c''],
           estado_inicial = ''{p,q,r,t}'',
           estados_finais = [''{f}''],
           transicoes = [(''{f}'', []),
                         (''{p,q,r,t}'', [(''a'', ''{f}''), (''b'', ''{p,q,r,t}''),
                                          (''c'', ''{p,q,r,t}'')])] \<rparr>"
  by code_simp

lemma parcial_nomes: "distinct (map nome_classe [{''f''}, {''p'', ''q'', ''r'', ''t''}])"
  by code_simp

lemma parcial_ordem:
  "sorted_list_of_set {''p'', ''q'', ''r'', ''t''} = ''p'' # [''q'', ''r'', ''t'']"
  by code_simp

lemma parcial_epc:
  "estado_para_classe [{''f''}, {''p'', ''q'', ''r'', ''t''}] ''f'' = Some ''{f}''"
  "estado_para_classe [{''f''}, {''p'', ''q'', ''r'', ''t''}] ''t'' = Some ''{p,q,r,t}''"
  by code_simp+

lemma parcial_destinos:
  "destino (self_transicoes (apos_iteracao afd_parcial)) ''p'' ''a'' = Some ''f''"
  "destino (self_transicoes (apos_iteracao afd_parcial)) ''q'' ''a'' = Some ''t''"
  "destino (self_transicoes (apos_iteracao afd_parcial)) ''r'' ''a'' = None"
  unfolding parcial_iteracao by (simp_all add: destino_def)

lemma construido_do_representante:
  assumes "construir_afd_minimizado ordem m classes = Inr r"
    and "distinct (map nome_classe classes)"
    and "classe \<in> set classes"
    and "ordem classe = representante # resto"
    and "s \<in> set (self_alfabeto m)"
  shows "destino (transicoes r) (nome_classe classe) s =
     (case destino (self_transicoes m) representante s of
        None \<Rightarrow> None
      | Some d \<Rightarrow> estado_para_classe classes d)"
proof -
  from assms(1) obtain n nt where
    nt: "transicoes_novas ordem (self_transicoes m) (estado_para_classe classes)
           (self_alfabeto m) classes [] = Inr nt"
    and r: "transicoes r = nt"
    by (rule construir_Inr) simp
  from transicoes_novas_mapa [OF nt assms(2) assms(3) assms(4)] obtain d where
    d: "transicoes_classe (self_transicoes m) (estado_para_classe classes) representante
          (self_alfabeto m) [] = Inr d"
    and k: "map_of nt (nome_classe classe) = Some d"
    by blast
  from transicoes_classe_mapa [OF d, of s] assms(5)
  have "map_of d s =
     (case destino (self_transicoes m) representante s of
        None \<Rightarrow> None
      | Some dst \<Rightarrow> estado_para_classe classes dst)"
    by (simp split: option.splits)
  with k r show ?thesis by (simp add: destino_def)
qed

section \<open>The classes are the components of the unmarked pairs\<close>

lemma ligados_refl: "ligados R x x"
  unfolding ligados_def by simp

lemma ligados_base: "(x, y) \<in> R \<Longrightarrow> ligados R x y"
  unfolding ligados_def by auto

lemma ligados_trans: "ligados R x y \<Longrightarrow> ligados R y z \<Longrightarrow> ligados R x z"
  unfolding ligados_def by (rule rtrancl_trans)

lemma ligados_sym: "ligados R x y \<Longrightarrow> ligados R y x"
proof -
  assume "ligados R x y"
  then have "(x, y) \<in> (R \<union> R\<inverse>)\<^sup>*" unfolding ligados_def .
  then have "(y, x) \<in> ((R \<union> R\<inverse>)\<inverse>)\<^sup>*" by (simp add: rtrancl_converse)
  moreover have "(R \<union> R\<inverse>)\<inverse> = R \<union> R\<inverse>" by auto
  ultimately show ?thesis unfolding ligados_def by simp
qed

lemma classes_ligadas_unir:
  assumes "classes_ligadas R cs"
    and "fst par \<in> \<Union>(set cs) \<and> snd par \<in> \<Union>(set cs) \<longrightarrow> par \<in> R"
  shows "classes_ligadas R (unir_classes par cs)"
proof -
  from unir_classes_casos [of par cs] show ?thesis
  proof
    assume "unir_classes par cs = cs"
    with assms(1) show ?thesis by simp
  next
    assume "\<exists>c1 c2. c1 \<in> set cs \<and> c2 \<in> set cs \<and> c1 \<noteq> c2 \<and> fst par \<in> c1 \<and> snd par \<in> c2
      \<and> procurar_classe (fst par) cs None = Some c1
      \<and> procurar_classe (snd par) cs None = Some c2
      \<and> unir_classes par cs = remove1 c2 (remove1 c1 cs) @ [c1 \<union> c2]"
    then obtain c1 c2 where c: "c1 \<in> set cs" "c2 \<in> set cs" "fst par \<in> c1" "snd par \<in> c2"
      and u: "unir_classes par cs = remove1 c2 (remove1 c1 cs) @ [c1 \<union> c2]"
      by blast
    from c assms(2) have "(fst par, snd par) \<in> R" by auto
    then have e: "ligados R (fst par) (snd par)" by (rule ligados_base)
    have l1: "\<And>x. x \<in> c1 \<Longrightarrow> ligados R x (fst par)"
      using assms(1) c unfolding classes_ligadas_def by blast
    have l2: "\<And>y. y \<in> c2 \<Longrightarrow> ligados R (snd par) y"
      using assms(1) c unfolding classes_ligadas_def by blast
    have cross: "\<And>x y. x \<in> c1 \<Longrightarrow> y \<in> c2 \<Longrightarrow> ligados R x y"
      using l1 l2 e ligados_trans by blast
    have "\<forall>x\<in>c1 \<union> c2. \<forall>y\<in>c1 \<union> c2. ligados R x y"
    proof (intro ballI)
      fix x y assume "x \<in> c1 \<union> c2" and "y \<in> c1 \<union> c2"
      then consider "x \<in> c1" "y \<in> c1" | "x \<in> c2" "y \<in> c2" | "x \<in> c1" "y \<in> c2"
        | "x \<in> c2" "y \<in> c1" by blast
      then show "ligados R x y"
      proof cases
        case 1 then show ?thesis using assms(1) c unfolding classes_ligadas_def by blast
      next
        case 2 then show ?thesis using assms(1) c unfolding classes_ligadas_def by blast
      next
        case 3 then show ?thesis by (rule cross)
      next
        case 4 then show ?thesis using cross ligados_sym by blast
      qed
    qed
    moreover have "set (remove1 c2 (remove1 c1 cs)) \<subseteq> set cs"
      using set_remove1_subset [of c2 "remove1 c1 cs"] set_remove1_subset [of c1 cs] by auto
    ultimately show ?thesis using assms(1) unfolding u classes_ligadas_def by auto
  qed
qed

lemma classes_ligadas_fold:
  assumes "classes_ligadas R cs" and "\<Union>(set cs) = E"
    and "\<forall>item\<in>set t. \<not> snd item \<and> fst (fst item) \<in> E \<and> snd (fst item) \<in> E
           \<longrightarrow> fst item \<in> R"
  shows "classes_ligadas R (fold passo_classes t cs)"
  using assms
proof (induction t arbitrary: cs)
  case Nil
  then show ?case by simp
next
  case (Cons item t)
  have "classes_ligadas R (passo_classes item cs)"
  proof (cases "snd item")
    case True
    with Cons.prems(1) show ?thesis by (simp add: passo_classes_def)
  next
    case False
    with Cons.prems have "fst (fst item) \<in> \<Union>(set cs) \<and> snd (fst item) \<in> \<Union>(set cs)
        \<longrightarrow> fst item \<in> R" by simp
    with Cons.prems(1) False show ?thesis
      by (simp add: passo_classes_def classes_ligadas_unir)
  qed
  moreover have "\<Union>(set (passo_classes item cs)) = E"
    using Cons.prems(2) by (simp add: passo_classes_def uniao_unir_classes)
  moreover have "\<forall>item\<in>set t. \<not> snd item \<and> fst (fst item) \<in> E \<and> snd (fst item) \<in> E
           \<longrightarrow> fst item \<in> R" using Cons.prems(3) by simp
  ultimately show ?case using Cons.IH by simp
qed

lemma disjuntas_unir:
  assumes "disjuntas cs"
  shows "disjuntas (unir_classes par cs)"
proof -
  from unir_classes_casos [of par cs] show ?thesis
  proof
    assume "unir_classes par cs = cs"
    with assms show ?thesis by simp
  next
    assume "\<exists>c1 c2. c1 \<in> set cs \<and> c2 \<in> set cs \<and> c1 \<noteq> c2 \<and> fst par \<in> c1 \<and> snd par \<in> c2
      \<and> procurar_classe (fst par) cs None = Some c1
      \<and> procurar_classe (snd par) cs None = Some c2
      \<and> unir_classes par cs = remove1 c2 (remove1 c1 cs) @ [c1 \<union> c2]"
    then obtain c1 c2 where c: "c1 \<in> set cs" "c2 \<in> set cs" "c1 \<noteq> c2" "fst par \<in> c1"
      and u: "unir_classes par cs = remove1 c2 (remove1 c1 cs) @ [c1 \<union> c2]"
      by blast
    from assms have dist: "distinct cs"
      and disj: "\<And>c d. c \<in> set cs \<Longrightarrow> d \<in> set cs \<Longrightarrow> c \<noteq> d \<Longrightarrow> c \<inter> d = {}"
      unfolding disjuntas_def by auto
    let ?rest = "remove1 c2 (remove1 c1 cs)"
    have rest: "set ?rest = set cs - {c1, c2}" using dist by auto
    have d1: "distinct ?rest" using dist by simp
    have sep: "\<And>d. d \<in> set ?rest \<Longrightarrow> d \<inter> (c1 \<union> c2) = {}"
    proof -
      fix d assume "d \<in> set ?rest"
      with rest have "d \<in> set cs" "d \<noteq> c1" "d \<noteq> c2" by auto
      with disj [of d c1] disj [of d c2] c show "d \<inter> (c1 \<union> c2) = {}" by auto
    qed
    have "c1 \<union> c2 \<notin> set ?rest"
    proof
      assume "c1 \<union> c2 \<in> set ?rest"
      from sep [OF this] c(4) show False by auto
    qed
    with d1 have "distinct (?rest @ [c1 \<union> c2])" by simp
    moreover have "\<forall>c\<in>set (?rest @ [c1 \<union> c2]). \<forall>d\<in>set (?rest @ [c1 \<union> c2]).
        c \<noteq> d \<longrightarrow> c \<inter> d = {}"
    proof (intro ballI impI)
      fix c d assume cd: "c \<in> set (?rest @ [c1 \<union> c2])" "d \<in> set (?rest @ [c1 \<union> c2])"
        "c \<noteq> d"
      then consider "c \<in> set ?rest" "d \<in> set ?rest" | "c \<in> set ?rest" "d = c1 \<union> c2"
        | "c = c1 \<union> c2" "d \<in> set ?rest" by auto
      then show "c \<inter> d = {}"
      proof cases
        case 1 with rest cd(3) disj show ?thesis by auto
      next
        case 2 with sep [of c] show ?thesis by simp
      next
        case 3 with sep [of d] show ?thesis by auto
      qed
    qed
    ultimately show ?thesis unfolding u disjuntas_def by blast
  qed
qed

lemma disjuntas_fold: "disjuntas cs \<Longrightarrow> disjuntas (fold passo_classes t cs)"
  by (induction t arbitrary: cs) (simp_all add: passo_classes_def disjuntas_unir)

lemma disjuntas_unitarios: "distinct es \<Longrightarrow> disjuntas (map (\<lambda>e. {e}) es)"
  unfolding disjuntas_def by (auto simp: distinct_map inj_on_def)

lemma mesma_classe_unir:
  assumes "mesma_classe cs x y"
  shows "mesma_classe (unir_classes par cs) x y"
proof -
  from assms obtain c where c: "c \<in> set cs" "x \<in> c" "y \<in> c"
    unfolding mesma_classe_def by blast
  from unir_classes_casos [of par cs] show ?thesis
  proof
    assume "unir_classes par cs = cs"
    with assms show ?thesis by simp
  next
    assume "\<exists>c1 c2. c1 \<in> set cs \<and> c2 \<in> set cs \<and> c1 \<noteq> c2 \<and> fst par \<in> c1 \<and> snd par \<in> c2
      \<and> procurar_classe (fst par) cs None = Some c1
      \<and> procurar_classe (snd par) cs None = Some c2
      \<and> unir_classes par cs = remove1 c2 (remove1 c1 cs) @ [c1 \<union> c2]"
    then obtain c1 c2 where
      u: "unir_classes par cs = remove1 c2 (remove1 c1 cs) @ [c1 \<union> c2]"
      by blast
    show ?thesis
    proof (cases "c = c1 \<or> c = c2")
      case True
      with c have "x \<in> c1 \<union> c2" "y \<in> c1 \<union> c2" by auto
      then show ?thesis unfolding u mesma_classe_def by auto
    next
      case False
      with c have "c \<in> set (remove1 c2 (remove1 c1 cs))" by simp
      with c show ?thesis unfolding u mesma_classe_def by auto
    qed
  qed
qed

lemma mesma_classe_fold:
  "mesma_classe cs x y \<Longrightarrow> mesma_classe (fold passo_classes t cs) x y"
  by (induction t arbitrary: cs) (simp_all add: passo_classes_def mesma_classe_unir)

lemma mesma_classe_apos_unir:
  assumes "fst par \<in> \<Union>(set cs)" and "snd par \<in> \<Union>(set cs)"
  shows "mesma_classe (unir_classes par cs) (fst par) (snd par)"
proof -
  from assms(1) obtain c1 where p1: "procurar_classe (fst par) cs None = Some c1"
    using procurar_classe_None [of "fst par" cs None] by (cases "procurar_classe (fst par) cs None") auto
  from assms(2) obtain c2 where p2: "procurar_classe (snd par) cs None = Some c2"
    using procurar_classe_None [of "snd par" cs None] by (cases "procurar_classe (snd par) cs None") auto
  from p1 have i1: "c1 \<in> set cs" "fst par \<in> c1" by (auto dest: procurar_classe_dentro)
  from p2 have i2: "c2 \<in> set cs" "snd par \<in> c2" by (auto dest: procurar_classe_dentro)
  show ?thesis
  proof (cases "c1 = c2")
    case True
    with p1 p2 have "unir_classes par cs = cs" by (simp add: unir_classes_def)
    with True i1 i2 show ?thesis unfolding mesma_classe_def by auto
  next
    case False
    with p1 p2 have "unir_classes par cs = remove1 c2 (remove1 c1 cs) @ [c1 \<union> c2]"
      by (simp add: unir_classes_def)
    with i1 i2 show ?thesis unfolding mesma_classe_def by auto
  qed
qed

lemma mesma_classe_item:
  assumes "item \<in> set t" and "\<not> snd item"
    and "fst (fst item) \<in> \<Union>(set cs)" and "snd (fst item) \<in> \<Union>(set cs)"
  shows "mesma_classe (fold passo_classes t cs) (fst (fst item)) (snd (fst item))"
  using assms
proof (induction t arbitrary: cs)
  case Nil
  then show ?case by simp
next
  case (Cons i t)
  show ?case
  proof (cases "item = i")
    case True
    with Cons.prems have "mesma_classe (passo_classes i cs) (fst (fst item)) (snd (fst item))"
      by (simp add: passo_classes_def mesma_classe_apos_unir)
    then show ?thesis by (simp add: mesma_classe_fold)
  next
    case False
    with Cons.prems(1) have "item \<in> set t" by simp
    moreover have "\<Union>(set (passo_classes i cs)) = \<Union>(set cs)"
      by (simp add: passo_classes_def uniao_unir_classes)
    ultimately show ?thesis using Cons.IH [of "passo_classes i cs"] Cons.prems by simp
  qed
qed

lemma mesma_classe_trans:
  assumes "disjuntas cs" and "mesma_classe cs x y" and "mesma_classe cs y z"
  shows "mesma_classe cs x z"
proof -
  from assms(2) obtain c where c: "c \<in> set cs" "x \<in> c" "y \<in> c"
    unfolding mesma_classe_def by blast
  from assms(3) obtain d where d: "d \<in> set cs" "y \<in> d" "z \<in> d"
    unfolding mesma_classe_def by blast
  from assms(1) c d have "c = d" unfolding disjuntas_def by auto
  with c d show ?thesis unfolding mesma_classe_def by auto
qed

lemma mesma_classe_sym: "mesma_classe cs x y \<Longrightarrow> mesma_classe cs y x"
  unfolding mesma_classe_def by auto

lemma mesma_classe_sse_ligados:
  assumes "distinct (self_estados m)"
    and "x \<in> set (self_estados m)" and "y \<in> set (self_estados m)"
  shows "mesma_classe (encontrar_classes_equivalencia m) x y
     \<longleftrightarrow> ligados (pares_nao_marcados (self_estados m) (self_tabela_marcacao m)) x y"
proof
  let ?es = "self_estados m" and ?t = "self_tabela_marcacao m"
  let ?R = "pares_nao_marcados ?es ?t"
  let ?ini = "map (\<lambda>e. {e}) ?es"
  have u0: "\<Union>(set ?ini) = set ?es" by auto
  {
    assume "mesma_classe (encontrar_classes_equivalencia m) x y"
    moreover have "classes_ligadas ?R ?ini"
      unfolding classes_ligadas_def by (auto simp: ligados_refl)
    then have "classes_ligadas ?R (fold passo_classes ?t ?ini)"
      using u0 by (rule classes_ligadas_fold) (auto simp: pares_nao_marcados_def)
    ultimately show "ligados ?R x y"
      unfolding encontrar_classes_equivalencia_def classes_ligadas_def mesma_classe_def
      by blast
  }
  {
    let ?cs = "encontrar_classes_equivalencia m"
    assume "ligados ?R x y"
    then have "(x, y) \<in> (?R \<union> ?R\<inverse>)\<^sup>*" unfolding ligados_def .
    moreover have d: "disjuntas ?cs"
      unfolding encontrar_classes_equivalencia_def
      using assms(1) by (simp add: disjuntas_fold disjuntas_unitarios)
    have passo: "\<And>a b. (a, b) \<in> ?R \<Longrightarrow> mesma_classe ?cs a b"
    proof -
      fix a b assume "(a, b) \<in> ?R"
      then have i: "((a, b), False) \<in> set ?t" and ab: "a \<in> set ?es" "b \<in> set ?es"
        unfolding pares_nao_marcados_def by auto
      have "mesma_classe (fold passo_classes ?t ?ini) (fst (fst ((a, b), False)))
          (snd (fst ((a, b), False)))"
        using i ab by (intro mesma_classe_item) auto
      then show "mesma_classe ?cs a b" unfolding encontrar_classes_equivalencia_def by simp
    qed
    have "mesma_classe ?cs x x"
      using assms(2) uniao_classes [of m] unfolding mesma_classe_def by auto
    ultimately show "mesma_classe ?cs x y"
    proof (induction rule: rtrancl_induct)
      case base
      then show ?case .
    next
      case (step b c)
      from step.hyps(2) have "mesma_classe ?cs b c"
        using passo mesma_classe_sym by auto
      with d step.IH [OF step.prems] show ?case by (rule mesma_classe_trans)
    qed
  }
qed

section \<open>The reachable set is closed under the transitions\<close>

lemma expandir_efeito:
  "expandir T e ss (alc, fila) = (alc', fila') \<Longrightarrow>
   alc \<subseteq> alc' \<and> set fila' = set fila \<union> (alc' - alc)
   \<and> (\<forall>s\<in>set ss. \<forall>d. destino T e s = Some d \<longrightarrow> d \<in> alc')"
proof (induction ss arbitrary: alc fila)
  case Nil
  then show ?case by auto
next
  case (Cons s ss)
  show ?case
  proof (cases "destino T e s")
    case None
    with Cons.prems have "expandir T e ss (alc, fila) = (alc', fila')" by simp
    from Cons.IH [OF this] None show ?thesis by auto
  next
    case (Some p)
    show ?thesis
    proof (cases "p \<in> alc")
      case True
      with Some Cons.prems have "expandir T e ss (alc, fila) = (alc', fila')" by simp
      from Cons.IH [OF this] Some True show ?thesis by auto
    next
      case False
      with Some Cons.prems
      have "expandir T e ss (insert p alc, fila @ [p]) = (alc', fila')" by simp
      from Cons.IH [OF this]
      have "insert p alc \<subseteq> alc'"
        and "set fila' = set (fila @ [p]) \<union> (alc' - insert p alc)"
        and "\<forall>s\<in>set ss. \<forall>d. destino T e s = Some d \<longrightarrow> d \<in> alc'" by simp_all
      with Some False show ?thesis by auto
    qed
  qed
qed

lemma busca_fechada:
  "set fila \<subseteq> alc \<Longrightarrow>
   (\<forall>e\<in>alc - set fila. \<forall>s\<in>set alf. \<forall>d. destino T e s = Some d \<longrightarrow> d \<in> alc) \<Longrightarrow>
   alc \<subseteq> busca T alf alc fila
   \<and> (\<forall>e\<in>busca T alf alc fila. \<forall>s\<in>set alf. \<forall>d.
         destino T e s = Some d \<longrightarrow> d \<in> busca T alf alc fila)"
proof (induction T alf alc fila rule: busca.induct)
  case (1 T alf alc)
  then show ?case by simp
next
  case (2 T alf alc e fila)
  obtain alc' fila' where ex: "expandir T e alf (alc, fila) = (alc', fila')"
    by (cases "expandir T e alf (alc, fila)")
  from expandir_efeito [OF ex]
  have sub: "alc \<subseteq> alc'" and fl: "set fila' = set fila \<union> (alc' - alc)"
    and ds: "\<forall>s\<in>set alf. \<forall>d. destino T e s = Some d \<longrightarrow> d \<in> alc'" by simp_all
  have a: "set fila' \<subseteq> alc'" using fl sub "2.prems"(1) by auto
  have b: "\<forall>x\<in>alc' - set fila'. \<forall>s\<in>set alf. \<forall>d. destino T x s = Some d \<longrightarrow> d \<in> alc'"
  proof (intro ballI allI impI)
    fix x s d
    assume x: "x \<in> alc' - set fila'" and s: "s \<in> set alf" and d: "destino T x s = Some d"
    from x fl have xa: "x \<in> alc" and xf: "x \<notin> set fila" by auto
    show "d \<in> alc'"
    proof (cases "x = e")
      case True
      with ds s d show ?thesis by blast
    next
      case False
      with xa xf have "x \<in> alc - set (e # fila)" by simp
      with "2.prems"(2) s d have "d \<in> alc" by blast
      with sub show ?thesis by blast
    qed
  qed
  from "2.IH" [OF ex [symmetric] a b] sub ex show ?case by auto
qed

lemma alcancaveis_inicial: "estado_inicial a \<in> alcancaveis_de a"
  unfolding alcancaveis_de_def encontrar_estados_alcancaveis_def
  using busca_fechada [of "[estado_inicial a]" "{estado_inicial a}" "alfabeto a" "transicoes a"]
  by (simp add: init_def)

lemma alcancaveis_fechado:
  "e \<in> alcancaveis_de a \<Longrightarrow> s \<in> set (alfabeto a) \<Longrightarrow>
   destino (transicoes a) e s = Some d \<Longrightarrow> d \<in> alcancaveis_de a"
  unfolding alcancaveis_de_def encontrar_estados_alcancaveis_def
  using busca_fechada [of "[estado_inicial a]" "{estado_inicial a}" "alfabeto a" "transicoes a"]
  by (simp add: init_def)

section \<open>The pruned dictionary and the keys of the table\<close>

lemma novas_transicoes_alc_mapa:
  "map_of (novas_transicoes_alc T es acc) e =
     (if e \<in> set es \<and> map_of T e \<noteq> None then map_of T e else map_of acc e)"
  by (induction es arbitrary: acc) (auto simp: update_conv' split: option.splits)

lemma destino_podado:
  "destino (novas_transicoes_alc T es []) e s = (if e \<in> set es then destino T e s else None)"
  unfolding destino_def novas_transicoes_alc_mapa by (auto split: option.splits)

lemma chaves_inicializar:
  "fst ` set (fold (\<lambda>par t. AList.update par False t) ps t) = fst ` set t \<union> set ps"
  by (induction ps arbitrary: t) (auto simp: dom_update)

lemma chaves_marcar_trivial:
  "set ks \<subseteq> fst ` set t \<Longrightarrow> map fst (fold (marcar_trivial F) ks t) = map fst t"
proof (induction ks arbitrary: t)
  case Nil
  then show ?case by simp
next
  case (Cons k ks)
  from Cons.prems have k: "k \<in> fst ` set t" by simp
  then have m: "map fst (marcar_trivial F k t) = map fst t"
    by (simp add: marcar_trivial_def Let_def chaves_update)
  then have "fst ` set (marcar_trivial F k t) = fst ` set t" by (metis set_map)
  with Cons.prems have "set ks \<subseteq> fst ` set (marcar_trivial F k t)" by simp
  from Cons.IH [OF this] m show ?case by simp
qed

lemma chaves_tabela_triviais:
  "fst ` set (self_tabela_marcacao (apos_triviais a)) = set (pares_de (estados_alcancaveis a))"
proof -
  let ?m = "inicializar_tabela (remover_estados_inalcancaveis (init a))"
  have e: "self_estados (remover_estados_inalcancaveis (init a)) = estados_alcancaveis a"
    unfolding remover_estados_inalcancaveis_def estados_alcancaveis_def alcancaveis_de_def
    by (simp add: Let_def init_def)
  have t0: "self_tabela_marcacao (remover_estados_inalcancaveis (init a)) = []"
    unfolding remover_estados_inalcancaveis_def by (simp add: Let_def init_def)
  have "fst ` set (self_tabela_marcacao ?m) = set (pares_de (estados_alcancaveis a))"
    unfolding inicializar_tabela_def by (simp add: chaves_inicializar e t0)
  moreover have "map fst (self_tabela_marcacao (marcar_pares_triviais ?m))
      = map fst (self_tabela_marcacao ?m)"
    unfolding marcar_pares_triviais_def by (simp add: chaves_marcar_trivial)
  then have "fst ` set (self_tabela_marcacao (marcar_pares_triviais ?m))
      = fst ` set (self_tabela_marcacao ?m)" by (metis set_map)
  ultimately show ?thesis unfolding apos_triviais_def by simp
qed

lemma chaves_tabela_iteracao:
  "fst ` set (self_tabela_marcacao (apos_iteracao a)) = set (pares_de (estados_alcancaveis a))"
proof -
  have "map fst (self_tabela_marcacao (apos_iteracao a))
      = map fst (self_tabela_marcacao (apos_triviais a))"
    unfolding apos_iteracao_def marcar_pares_iterativamente_def by (simp add: laco_chaves)
  then have "fst ` set (self_tabela_marcacao (apos_iteracao a))
      = fst ` set (self_tabela_marcacao (apos_triviais a))" by (metis set_map)
  then show ?thesis by (simp add: chaves_tabela_triviais)
qed

lemma pares_de_membros: "(x, y) \<in> set (pares_de es) \<Longrightarrow> x \<in> set es \<and> y \<in> set es"
  by (induction es) auto

lemma pares_de_indices:
  "e1 \<in> set es \<Longrightarrow> e2 \<in> set es \<Longrightarrow> index_de es e1 < index_de es e2 \<Longrightarrow>
   (e1, e2) \<in> set (pares_de es)"
  by (induction es) (auto split: if_splits)

lemma index_de_injetivo:
  "e1 \<in> set es \<Longrightarrow> e2 \<in> set es \<Longrightarrow> index_de es e1 = index_de es e2 \<Longrightarrow> e1 = e2"
  by (induction es) (auto split: if_splits)

lemma obter_par_ordenado_canonico:
  assumes "d1 \<in> set es" and "d2 \<in> set es" and "d1 \<noteq> d2"
  shows "obter_par_ordenado es d1 d2 \<in> set (pares_de es)
    \<and> (obter_par_ordenado es d1 d2 = (d1, d2) \<or> obter_par_ordenado es d1 d2 = (d2, d1))"
proof (cases "index_de es d1 < index_de es d2")
  case True
  with assms show ?thesis by (simp add: obter_par_ordenado_def pares_de_indices)
next
  case False
  with assms index_de_injetivo [of d1 es d2] have "index_de es d2 < index_de es d1"
    by (cases "index_de es d1 = index_de es d2") auto
  with assms False show ?thesis by (simp add: obter_par_ordenado_def pares_de_indices)
qed

lemma trivial_marca:
  "par \<in> set ks \<Longrightarrow> (fst par \<in> F) \<noteq> (snd par \<in> F) \<Longrightarrow>
   map_of (fold (marcar_trivial F) ks t) par = Some True"
proof (induction ks arbitrary: t)
  case Nil
  then show ?case by simp
next
  case (Cons k ks)
  show ?case
  proof (cases "k = par")
    case True
    with Cons.prems(2) have "map_of (marcar_trivial F k t) par = Some True"
      by (simp add: marcar_trivial_def Let_def update_conv')
    then show ?thesis by (simp add: fold_marcar_trivial_mono)
  next
    case False
    with Cons.prems have "par \<in> set ks" by simp
    from Cons.IH [OF this Cons.prems(2)] show ?thesis by simp
  qed
qed

lemma varrer_nao_marcado:
  "\<not> varrer_simbolos T es t e1 e2 ss \<Longrightarrow> s \<in> set ss \<Longrightarrow>
   destino T e1 s = Some d1 \<Longrightarrow> destino T e2 s = Some d2 \<Longrightarrow> d1 \<noteq> d2 \<Longrightarrow>
   map_of t (obter_par_ordenado es d1 d2) \<noteq> Some True"
  by (induction ss) (auto split: option.splits if_splits)

section \<open>Unmarked pairs and the words accepted\<close>

lemma completo_passo:
  assumes "afd_completo a" and "e \<in> set (estados_alcancaveis a)" and "s \<in> set (alfabeto a)"
  obtains d where "destino (transicoes a) e s = Some d" and "d \<in> set (estados_alcancaveis a)"
    and "destino (self_transicoes (apos_iteracao a)) e s = Some d"
proof -
  from assms obtain d where d: "destino (transicoes a) e s = Some d" "d \<in> set (estados a)"
    unfolding afd_completo_def by blast
  from assms(2) have "e \<in> alcancaveis_de a" unfolding estados_alcancaveis_def by simp
  from alcancaveis_fechado [OF this assms(3) d(1)] d(2)
  have "d \<in> set (estados_alcancaveis a)" unfolding estados_alcancaveis_def by simp
  moreover have "destino (self_transicoes (apos_iteracao a)) e s = Some d"
    using assms(2) d(1) by (simp add: campos_iteracao destino_podado)
  ultimately show ?thesis using d(1) that by blast
qed

lemma tabela_final_chave:
  assumes "map_of (self_tabela_marcacao (apos_iteracao a)) (p, q) = Some b"
  shows "(p, q) \<in> set (pares_de (estados_alcancaveis a))"
proof -
  from assms have "((p, q), b) \<in> set (self_tabela_marcacao (apos_iteracao a))"
    by (rule map_of_SomeD)
  then have "(p, q) \<in> fst ` set (self_tabela_marcacao (apos_iteracao a))" by force
  then show ?thesis by (simp add: chaves_tabela_iteracao)
qed

lemma tabela_final_valor:
  assumes "k \<in> set (pares_de (estados_alcancaveis a))"
    and "map_of (self_tabela_marcacao (apos_iteracao a)) k \<noteq> Some True"
  shows "map_of (self_tabela_marcacao (apos_iteracao a)) k = Some False"
proof -
  from assms(1) have "k \<in> fst ` set (self_tabela_marcacao (apos_iteracao a))"
    by (simp add: chaves_tabela_iteracao)
  then obtain b where "map_of (self_tabela_marcacao (apos_iteracao a)) k = Some b"
    by (metis domD dom_map_of_conv_image_fst)
  with assms(2) show ?thesis by (cases b) auto
qed

lemma nao_marcado_mesma_finalidade:
  assumes "map_of (self_tabela_marcacao (apos_iteracao a)) (p, q) = Some False"
  shows "(p \<in> set (estados_finais a)) = (q \<in> set (estados_finais a))"
proof (rule ccontr)
  assume dif: "(p \<in> set (estados_finais a)) \<noteq> (q \<in> set (estados_finais a))"
  let ?m = "inicializar_tabela (remover_estados_inalcancaveis (init a))"
  let ?F = "set (estados_finais a) \<inter> alcancaveis_de a"
  from assms have k: "(p, q) \<in> set (pares_de (estados_alcancaveis a))"
    by (rule tabela_final_chave)
  then have "p \<in> alcancaveis_de a" "q \<in> alcancaveis_de a"
    by (auto dest: pares_de_membros simp: estados_alcancaveis_def)
  with dif have d: "(fst (p, q) \<in> ?F) \<noteq> (snd (p, q) \<in> ?F)" by simp
  have F: "self_estados_finais ?m = ?F"
    unfolding inicializar_tabela_def remover_estados_inalcancaveis_def alcancaveis_de_def
    by (simp add: Let_def init_def)
  have "fst ` set (self_tabela_marcacao (apos_triviais a))
      = fst ` set (self_tabela_marcacao ?m)"
  proof -
    have "map fst (self_tabela_marcacao (marcar_pares_triviais ?m))
      = map fst (self_tabela_marcacao ?m)"
      unfolding marcar_pares_triviais_def by (simp add: chaves_marcar_trivial)
    then show ?thesis unfolding apos_triviais_def by (metis set_map)
  qed
  with k have "(p, q) \<in> set (map fst (self_tabela_marcacao ?m))"
    by (simp add: chaves_tabela_triviais)
  from trivial_marca [OF this d]
  have "map_of (self_tabela_marcacao (apos_triviais a)) (p, q) = Some True"
    unfolding apos_triviais_def marcar_pares_triviais_def by (simp add: F)
  then have "map_of (self_tabela_marcacao (apos_iteracao a)) (p, q) = Some True"
    unfolding apos_iteracao_def marcar_pares_iterativamente_def by (simp add: laco_mono)
  with assms show False by simp
qed

lemma nao_marcado_ponto_fixo:
  assumes "map_of (self_tabela_marcacao (apos_iteracao a)) (p, q) = Some False"
  shows "\<not> varrer_simbolos (self_transicoes (apos_iteracao a)) (estados_alcancaveis a)
           (self_tabela_marcacao (apos_iteracao a)) p q (alfabeto a)"
proof -
  let ?m = "apos_triviais a"
  let ?t = "self_tabela_marcacao (apos_iteracao a)"
  have t: "?t = fst (laco (self_transicoes ?m) (self_estados ?m) (self_alfabeto ?m)
      (self_tabela_marcacao ?m) 0)"
    unfolding apos_iteracao_def marcar_pares_iterativamente_def by simp
  have "passada (self_transicoes ?m) (self_estados ?m) (self_alfabeto ?m) (map fst ?t)
      (?t, False) = (?t, False)"
    unfolding t by (rule laco_ponto_fixo)
  from passada_sem_mudanca [OF this]
  have "\<forall>par\<in>set (map fst ?t). map_of ?t par = Some True
      \<or> \<not> varrer_simbolos (self_transicoes ?m) (self_estados ?m) ?t (fst par) (snd par)
            (self_alfabeto ?m)" by simp
  moreover from assms have "(p, q) \<in> set (map fst ?t)"
    using tabela_final_chave [OF assms] by (simp add: chaves_tabela_iteracao)
  ultimately have "\<not> varrer_simbolos (self_transicoes ?m) (self_estados ?m) ?t p q
      (self_alfabeto ?m)" using assms by fastforce
  then show ?thesis by (simp add: campos_triviais campos_iteracao)
qed

lemma nao_marcados_aceitam_igual:
  assumes "afd_completo a" and "set w \<subseteq> set (alfabeto a)"
    and "map_of (self_tabela_marcacao (apos_iteracao a)) (p, q) = Some False"
  shows "aceita (transicoes a) (set (estados_finais a)) p w
       = aceita (transicoes a) (set (estados_finais a)) q w"
  using assms(2,3)
proof (induction w arbitrary: p q)
  case Nil
  then show ?case by (simp add: nao_marcado_mesma_finalidade)
next
  case (Cons s w)
  let ?es = "estados_alcancaveis a"
  let ?t = "self_tabela_marcacao (apos_iteracao a)"
  from Cons.prems have s: "s \<in> set (alfabeto a)" and w: "set w \<subseteq> set (alfabeto a)" by simp_all
  from Cons.prems(2) have "(p, q) \<in> set (pares_de ?es)" by (rule tabela_final_chave)
  then have p: "p \<in> set ?es" and q: "q \<in> set ?es" by (auto dest: pares_de_membros)
  from assms(1) p s obtain d1 where d1: "destino (transicoes a) p s = Some d1"
    "d1 \<in> set ?es" "destino (self_transicoes (apos_iteracao a)) p s = Some d1"
    by (rule completo_passo)
  from assms(1) q s obtain d2 where d2: "destino (transicoes a) q s = Some d2"
    "d2 \<in> set ?es" "destino (self_transicoes (apos_iteracao a)) q s = Some d2"
    by (rule completo_passo)
  have "aceita (transicoes a) (set (estados_finais a)) d1 w
      = aceita (transicoes a) (set (estados_finais a)) d2 w"
  proof (cases "d1 = d2")
    case True
    then show ?thesis by simp
  next
    case False
    let ?k = "obter_par_ordenado ?es d1 d2"
    from obter_par_ordenado_canonico [OF d1(2) d2(2) False]
    have k: "?k \<in> set (pares_de ?es)" and or: "?k = (d1, d2) \<or> ?k = (d2, d1)" by simp_all
    from nao_marcado_ponto_fixo [OF Cons.prems(2)] s d1(3) d2(3) False
    have "map_of ?t ?k \<noteq> Some True" by (rule varrer_nao_marcado)
    with k have u: "map_of ?t ?k = Some False" by (rule tabela_final_valor)
    from or show ?thesis
    proof
      assume "?k = (d1, d2)"
      with u have "map_of ?t (d1, d2) = Some False" by simp
      from Cons.IH [OF w this] show ?thesis .
    next
      assume "?k = (d2, d1)"
      with u have "map_of ?t (d2, d1) = Some False" by simp
      from Cons.IH [OF w this] show ?thesis by simp
    qed
  qed
  with d1(1) d2(1) show ?case by simp
qed






section \<open>The result is well formed\<close>

lemma resultado_bem_formado:
  assumes "ordem_valida ordem" and "minimizar ordem a = Inr r"
  shows "bem_formado r"
proof -
  let ?m = "apos_iteracao a"
  let ?cs = "encontrar_classes_equivalencia ?m"
  let ?epc = "estado_para_classe ?cs"
  have c: "construir_afd_minimizado ordem ?m ?cs = Inr r"
    using assms(2) by (rule minimizar_Inr)
  from c obtain n nt where
    i: "?epc (self_estado_inicial ?m) = Some n"
    and t: "transicoes_novas ordem (self_transicoes ?m) ?epc (self_alfabeto ?m) ?cs [] = Inr nt"
    and r: "estados r = map nome_classe ?cs" "estado_inicial r = n" "transicoes r = nt"
    by (rule construir_Inr) simp
  have nome: "\<And>x v. ?epc x = Some v \<Longrightarrow> v \<in> set (estados r)"
    using r(1) by (auto dest: epc_Some)
  have "estado_inicial r \<in> set (estados r)" using i r(2) by (simp add: nome)
  moreover have "set (estados_finais r) \<subseteq> set (estados r)"
    unfolding construir_finais [OF assms(1) finais_finitos c]
    by (auto simp: these_imagem nome)
  moreover have "\<forall>(e, d) \<in> set (transicoes r).
      e \<in> set (estados r) \<and> (\<forall>(s, e') \<in> set d. e' \<in> set (estados r))"
  proof (clarify, rule conjI)
    fix e d assume "(e, d) \<in> set (transicoes r)"
    with r(3) have "(e, d) \<in> set nt" by simp
    from transicoes_novas_elementos [OF t this]
    have k: "e \<in> nome_classe ` set ?cs" and v: "\<forall>(s, v) \<in> set d. \<exists>x. ?epc x = Some v"
      by simp_all
    from k r(1) show "e \<in> set (estados r)" by simp
    from v show "\<forall>(s, e') \<in> set d. e' \<in> set (estados r)" by (auto dest: nome)
  qed
  ultimately show ?thesis unfolding bem_formado_def by blast
qed

lemma expandir_origem:
  "expandir T e ss (alc, fila) = (alc', fila') \<Longrightarrow>
   alc' \<subseteq> alc \<union> {d. \<exists>s\<in>set ss. destino T e s = Some d}"
proof (induction ss arbitrary: alc fila)
  case Nil
  then show ?case by auto
next
  case (Cons s ss)
  show ?case
  proof (cases "destino T e s")
    case None
    with Cons.prems have "expandir T e ss (alc, fila) = (alc', fila')" by simp
    from Cons.IH [OF this] show ?thesis by auto
  next
    case (Some p)
    show ?thesis
    proof (cases "p \<in> alc")
      case True
      with Some Cons.prems have "expandir T e ss (alc, fila) = (alc', fila')" by simp
      from Cons.IH [OF this] show ?thesis by auto
    next
      case False
      with Some Cons.prems
      have "expandir T e ss (insert p alc, fila @ [p]) = (alc', fila')" by simp
      from Cons.IH [OF this] Some show ?thesis by auto
    qed
  qed
qed

lemma busca_cresce: "alc \<subseteq> busca T alf alc fila"
proof (induction T alf alc fila rule: busca.induct)
  case (1 T alf alc)
  then show ?case by simp
next
  case (2 T alf alc e fila)
  obtain alc' fila' where ex: "expandir T e alf (alc, fila) = (alc', fila')"
    by (cases "expandir T e alf (alc, fila)")
  from expandir_efeito [OF ex] have "alc \<subseteq> alc'" by simp
  with "2.IH" [OF ex [symmetric]] ex show ?case by auto
qed

lemma busca_dentro:
  "set fila \<subseteq> alc \<Longrightarrow> alc \<subseteq> S \<Longrightarrow>
   (\<forall>e\<in>busca T alf alc fila. \<forall>s\<in>set alf. \<forall>d. destino T e s = Some d \<longrightarrow> d \<in> S) \<Longrightarrow>
   busca T alf alc fila \<subseteq> S"
proof (induction T alf alc fila rule: busca.induct)
  case (1 T alf alc)
  then show ?case by simp
next
  case (2 T alf alc e fila)
  obtain alc' fila' where ex: "expandir T e alf (alc, fila) = (alc', fila')"
    by (cases "expandir T e alf (alc, fila)")
  have eq: "busca T alf alc (e # fila) = busca T alf alc' fila'" using ex by simp
  from expandir_efeito [OF ex]
  have sub: "alc \<subseteq> alc'" and fl: "set fila' = set fila \<union> (alc' - alc)" by simp_all
  have a: "set fila' \<subseteq> alc'" using fl sub "2.prems"(1) by auto
  have "e \<in> alc" using "2.prems"(1) by simp
  with sub busca_cresce [of alc' T alf fila'] have "e \<in> busca T alf alc' fila'" by blast
  with "2.prems"(3) eq have "\<forall>s\<in>set alf. \<forall>d. destino T e s = Some d \<longrightarrow> d \<in> S" by simp
  with expandir_origem [OF ex] "2.prems"(2) have b: "alc' \<subseteq> S" by blast
  from "2.prems"(3) eq
  have c: "\<forall>e\<in>busca T alf alc' fila'. \<forall>s\<in>set alf. \<forall>d. destino T e s = Some d \<longrightarrow> d \<in> S"
    by simp
  from "2.IH" [OF ex [symmetric] a b c] eq show ?case by simp
qed

lemma alcancaveis_listados:
  assumes "destinos_listados a" and "estado_inicial a \<in> set (estados a)"
  shows "alcancaveis_de a \<subseteq> set (estados a)"
proof -
  have "busca (transicoes a) (alfabeto a) {estado_inicial a} [estado_inicial a]
      \<subseteq> set (estados a)"
  proof (rule busca_dentro)
    show "set [estado_inicial a] \<subseteq> {estado_inicial a}" by simp
    show "{estado_inicial a} \<subseteq> set (estados a)" using assms(2) by simp
    show "\<forall>e\<in>busca (transicoes a) (alfabeto a) {estado_inicial a} [estado_inicial a].
        \<forall>s\<in>set (alfabeto a). \<forall>d. destino (transicoes a) e s = Some d \<longrightarrow> d \<in> set (estados a)"
      using assms(1)
      unfolding destinos_listados_def alcancaveis_de_def encontrar_estados_alcancaveis_def
      by (simp add: init_def)
  qed
  then show ?thesis
    unfolding alcancaveis_de_def encontrar_estados_alcancaveis_def by (simp add: init_def)
qed

lemma classes_finitas_unir: "classes_finitas cs \<Longrightarrow> classes_finitas (unir_classes par cs)"
proof -
  assume f: "classes_finitas cs"
  from unir_classes_casos [of par cs] show ?thesis
  proof
    assume "unir_classes par cs = cs"
    with f show ?thesis by simp
  next
    assume "\<exists>c1 c2. c1 \<in> set cs \<and> c2 \<in> set cs \<and> c1 \<noteq> c2 \<and> fst par \<in> c1 \<and> snd par \<in> c2
      \<and> procurar_classe (fst par) cs None = Some c1
      \<and> procurar_classe (snd par) cs None = Some c2
      \<and> unir_classes par cs = remove1 c2 (remove1 c1 cs) @ [c1 \<union> c2]"
    then obtain c1 c2 where c: "c1 \<in> set cs" "c2 \<in> set cs"
      and u: "unir_classes par cs = remove1 c2 (remove1 c1 cs) @ [c1 \<union> c2]"
      by blast
    have "set (remove1 c2 (remove1 c1 cs)) \<subseteq> set cs"
      using set_remove1_subset [of c2 "remove1 c1 cs"] set_remove1_subset [of c1 cs] by auto
    with f c show ?thesis unfolding u classes_finitas_def by auto
  qed
qed

lemma classes_finitas_fold:
  "classes_finitas cs \<Longrightarrow> classes_finitas (fold passo_classes t cs)"
  by (induction t arbitrary: cs) (simp_all add: passo_classes_def classes_finitas_unir)

lemma classes_finitas_encontrar: "classes_finitas (encontrar_classes_equivalencia m)"
  unfolding encontrar_classes_equivalencia_def
  by (rule classes_finitas_fold) (simp add: classes_finitas_def)

lemma ordem_representante:
  assumes "ordem_valida ordem" and "finite c" and "c \<noteq> {}"
  obtains rep resto where "ordem c = rep # resto" and "rep \<in> c"
proof -
  from assms(1,2) have s: "set (ordem c) = c" unfolding ordem_valida_def by simp
  with assms(3) obtain rep resto where o: "ordem c = rep # resto" by (cases "ordem c") auto
  with s have "rep \<in> c" by auto
  with o that show ?thesis by blast
qed

lemma transicoes_classe_sucesso:
  "\<forall>s\<in>set ss. \<forall>d. destino T r s = Some d \<longrightarrow> epc d \<noteq> None \<Longrightarrow>
   \<exists>d'. transicoes_classe T epc r ss d0 = Inr d'"
proof (induction ss arbitrary: d0)
  case Nil
  then show ?case by simp
next
  case (Cons s ss)
  then show ?case by (cases "destino T r s") auto
qed

lemma transicoes_novas_sucesso:
  "\<forall>c\<in>set cs. \<exists>rep resto. ordem c = rep # resto
      \<and> (\<forall>s\<in>set alf. \<forall>d. destino T rep s = Some d \<longrightarrow> epc d \<noteq> None) \<Longrightarrow>
   \<exists>nt'. transicoes_novas ordem T epc alf cs nt = Inr nt'"
proof (induction cs arbitrary: nt)
  case Nil
  then show ?case by simp
next
  case (Cons c cs)
  from Cons.prems obtain rep resto where o: "ordem c = rep # resto"
    and r: "\<forall>s\<in>set alf. \<forall>d. destino T rep s = Some d \<longrightarrow> epc d \<noteq> None" by auto
  from transicoes_classe_sucesso [OF r] obtain d' where
    d: "transicoes_classe T epc rep alf [] = Inr d'" by blast
  from Cons.prems have "\<forall>c\<in>set cs. \<exists>rep resto. ordem c = rep # resto
      \<and> (\<forall>s\<in>set alf. \<forall>d. destino T rep s = Some d \<longrightarrow> epc d \<noteq> None)" by simp
  from Cons.IH [OF this] o d show ?case by simp
qed

lemma minimizar_sucesso:
  assumes "ordem_valida ordem" and "destinos_listados a"
    and "estado_inicial a \<in> set (estados a)"
  shows "\<exists>r. minimizar ordem a = Inr r"
proof -
  let ?m = "apos_iteracao a"
  let ?cs = "encontrar_classes_equivalencia ?m"
  let ?epc = "estado_para_classe ?cs"
  let ?es = "estados_alcancaveis a"
  have alc: "alcancaveis_de a \<subseteq> set (estados a)"
    using assms(2,3) by (rule alcancaveis_listados)
  then have es: "set ?es = alcancaveis_de a" unfolding estados_alcancaveis_def by auto
  have u: "\<Union>(set ?cs) = set ?es" by (simp add: uniao_classes campos_iteracao)
  have dentro: "\<And>e. e \<in> alcancaveis_de a \<Longrightarrow> ?epc e \<noteq> None"
    using es u by (simp add: epc_None)
  have ini: "estado_inicial a \<in> alcancaveis_de a" by (rule alcancaveis_inicial)
  with es have ne: "?es \<noteq> []" by auto
  from dentro [OF ini] obtain n where n: "?epc (self_estado_inicial ?m) = Some n"
    by (auto simp: campos_iteracao)
  have fin: "\<not> (\<exists>ef\<in>self_estados_finais ?m. ?epc ef = None)"
    using dentro by (simp add: campos_iteracao)
  have "\<forall>c\<in>set ?cs. \<exists>rep resto. ordem c = rep # resto
      \<and> (\<forall>s\<in>set (self_alfabeto ?m). \<forall>d.
            destino (self_transicoes ?m) rep s = Some d \<longrightarrow> ?epc d \<noteq> None)"
  proof
    fix c assume c: "c \<in> set ?cs"
    with classes_finitas_encontrar [of ?m] have "finite c" "c \<noteq> {}"
      unfolding classes_finitas_def by auto
    with assms(1) obtain rep resto where o: "ordem c = rep # resto" and rc: "rep \<in> c"
      by (rule ordem_representante)
    from rc c u es have ra: "rep \<in> alcancaveis_de a" and re: "rep \<in> set ?es" by auto
    have "\<forall>s\<in>set (self_alfabeto ?m). \<forall>d.
            destino (self_transicoes ?m) rep s = Some d \<longrightarrow> ?epc d \<noteq> None"
    proof (intro ballI allI impI)
      fix s d
      assume s: "s \<in> set (self_alfabeto ?m)"
        and d: "destino (self_transicoes ?m) rep s = Some d"
      from s have s': "s \<in> set (alfabeto a)" by (simp add: campos_iteracao)
      from d re have d': "destino (transicoes a) rep s = Some d"
        by (simp add: campos_iteracao destino_podado)
      from alcancaveis_fechado [OF ra s' d'] show "?epc d \<noteq> None" by (rule dentro)
    qed
    with o show "\<exists>rep resto. ordem c = rep # resto
      \<and> (\<forall>s\<in>set (self_alfabeto ?m). \<forall>d.
            destino (self_transicoes ?m) rep s = Some d \<longrightarrow> ?epc d \<noteq> None)" by blast
  qed
  from transicoes_novas_sucesso [OF this] obtain nt where
    "transicoes_novas ordem (self_transicoes ?m) ?epc (self_alfabeto ?m) ?cs [] = Inr nt"
    by blast
  with n fin ne show ?thesis
    unfolding minimizar_def exibir_tabela_marcacao_def construir_afd_minimizado_def
    by (simp add: campos_iteracao campos_triviais Let_def)
qed

lemma cenario_a_destinos: "destinos_listados cenario_a"
  unfolding destinos_listados_def alcancaveis_de_def cenario_a_alcancaveis
  by (simp add: cenario_a_def destino_def)

text \<open>
  Claim C10. Let every destination of a reachable state be a listed state. Then an
  automaton returned by the run is well formed: its start state and its accepting states
  are among its states, and so are every source and every destination of its transition
  dictionary. If moreover the start state is listed, the run does return an automaton.
  (The first part needs no hypothesis on the input: see \<open>resultado_bem_formado\<close>.)
\<close>

theorem minimizado_bem_formado:
  assumes "ordem_valida ordem" and "destinos_listados a"
  shows "(minimizar ordem a = Inr r \<longrightarrow> bem_formado r)
    \<and> (estado_inicial a \<in> set (estados a) \<longrightarrow> (\<exists>r'. minimizar ordem a = Inr r'))"
  using assms by (auto intro: resultado_bem_formado minimizar_sucesso)

theorem minimizado_bem_formado_witness:
  "\<exists>r. minimizar sorted_list_of_set cenario_a = Inr r \<and> bem_formado r"
proof -
  have i: "estado_inicial cenario_a \<in> set (estados cenario_a)" by (simp add: cenario_a_def)
  from minimizado_bem_formado [OF ordem_valida_sorted cenario_a_destinos] i
  obtain r' where r': "minimizar sorted_list_of_set cenario_a = Inr r'" by blast
  from minimizado_bem_formado [OF ordem_valida_sorted cenario_a_destinos, of r'] r'
  have "bem_formado r'" by blast
  with r' show ?thesis by blast
qed

section \<open>Keys of the final table; the states of an unmarked pair share a class\<close>

lemma chaves_distintas_inicializar:
  "distinct (map fst t) \<Longrightarrow>
   distinct (map fst (fold (\<lambda>par t. AList.update par False t) ps t))"
  by (induction ps arbitrary: t) (simp_all add: distinct_update)

lemma chaves_distintas_final: "distinct (map fst (self_tabela_marcacao (apos_iteracao a)))"
proof -
  let ?rem = "remover_estados_inalcancaveis (init a)"
  let ?m = "inicializar_tabela ?rem"
  have t0: "self_tabela_marcacao ?rem = []"
    unfolding remover_estados_inalcancaveis_def by (simp add: Let_def init_def)
  have "distinct (map fst (self_tabela_marcacao ?m))"
    unfolding inicializar_tabela_def by (simp add: chaves_distintas_inicializar t0)
  moreover have "map fst (self_tabela_marcacao (marcar_pares_triviais ?m))
      = map fst (self_tabela_marcacao ?m)"
    unfolding marcar_pares_triviais_def by (simp add: chaves_marcar_trivial)
  moreover have "map fst (self_tabela_marcacao (apos_iteracao a))
      = map fst (self_tabela_marcacao (apos_triviais a))"
    unfolding apos_iteracao_def marcar_pares_iterativamente_def by (simp add: laco_chaves)
  ultimately show ?thesis unfolding apos_triviais_def by simp
qed

lemma nao_marcado_mesma_classe:
  assumes "map_of (self_tabela_marcacao (apos_iteracao a)) (x, y) = Some False"
  shows "mesma_classe (encontrar_classes_equivalencia (apos_iteracao a)) x y"
proof -
  let ?m = "apos_iteracao a"
  from assms have i: "((x, y), False) \<in> set (self_tabela_marcacao ?m)" by (rule map_of_SomeD)
  from tabela_final_chave [OF assms]
  have "x \<in> set (self_estados ?m)" "y \<in> set (self_estados ?m)"
    by (auto dest: pares_de_membros simp: campos_iteracao)
  then have "mesma_classe (fold passo_classes (self_tabela_marcacao ?m)
      (map (\<lambda>e. {e}) (self_estados ?m))) (fst (fst ((x, y), False)))
      (snd (fst ((x, y), False)))"
    using i by (intro mesma_classe_item) auto
  then show ?thesis unfolding encontrar_classes_equivalencia_def by simp
qed

lemma transicoes_classe_cong:
  "\<forall>s\<in>set ss. \<exists>d1 d2. destino T r1 s = Some d1 \<and> destino T r2 s = Some d2
      \<and> epc d1 = epc d2 \<Longrightarrow>
   transicoes_classe T epc r1 ss d0 = transicoes_classe T epc r2 ss d0"
proof (induction ss arbitrary: d0)
  case Nil
  then show ?case by simp
next
  case (Cons s ss)
  from Cons.prems obtain d1 d2 where d: "destino T r1 s = Some d1" "destino T r2 s = Some d2"
    "epc d1 = epc d2" by auto
  from Cons.prems have r: "\<forall>s\<in>set ss. \<exists>d1 d2. destino T r1 s = Some d1
      \<and> destino T r2 s = Some d2 \<and> epc d1 = epc d2" by simp
  show ?case
  proof (cases "epc d2")
    case None
    with d show ?thesis by simp
  next
    case (Some n)
    with d Cons.IH [OF r] show ?thesis by simp
  qed
qed

lemma transicoes_novas_cong:
  "\<forall>c\<in>set cs. \<exists>r1 x1 r2 x2. ordem1 c = r1 # x1 \<and> ordem2 c = r2 # x2
      \<and> transicoes_classe T epc r1 alf [] = transicoes_classe T epc r2 alf [] \<Longrightarrow>
   transicoes_novas ordem1 T epc alf cs nt = transicoes_novas ordem2 T epc alf cs nt"
proof (induction cs arbitrary: nt)
  case Nil
  then show ?case by simp
next
  case (Cons c cs)
  from Cons.prems obtain r1 x1 r2 x2 where o: "ordem1 c = r1 # x1" "ordem2 c = r2 # x2"
    "transicoes_classe T epc r1 alf [] = transicoes_classe T epc r2 alf []" by auto
  from Cons.prems have "\<forall>c\<in>set cs. \<exists>r1 x1 r2 x2. ordem1 c = r1 # x1 \<and> ordem2 c = r2 # x2
      \<and> transicoes_classe T epc r1 alf [] = transicoes_classe T epc r2 alf []" by simp
  from Cons.IH [OF this] o show ?case by (simp split: sum.splits)
qed

section \<open>Marked pairs are distinguishable; classes of a complete automaton\<close>

lemma distinguivel_sym: "distinguivel T F alf p q \<Longrightarrow> distinguivel T F alf q p"
  unfolding distinguivel_def by metis

lemma distinguivel_passo:
  assumes "s \<in> set alf" and "destino T e1 s = Some d1" and "destino T e2 s = Some d2"
    and "distinguivel T F alf d1 d2"
  shows "distinguivel T F alf e1 e2"
proof -
  from assms(4) obtain w where w: "set w \<subseteq> set alf" "aceita T F d1 w \<noteq> aceita T F d2 w"
    unfolding distinguivel_def by blast
  with assms(1-3) have "set (s # w) \<subseteq> set alf"
    and "aceita T F e1 (s # w) \<noteq> aceita T F e2 (s # w)" by simp_all
  then show ?thesis unfolding distinguivel_def by blast
qed

lemma obter_par_ordenado_casos:
  "obter_par_ordenado es d1 d2 = (d1, d2) \<or> obter_par_ordenado es d1 d2 = (d2, d1)"
  unfolding obter_par_ordenado_def by (simp add: Let_def)

lemma marcas_corretas_trivial:
  assumes "marcas_corretas T F alf t"
  shows "marcas_corretas T F alf (marcar_trivial F par t)"
proof (cases "(fst par \<in> F) \<noteq> (snd par \<in> F)")
  case True
  then have "aceita T F (fst par) [] \<noteq> aceita T F (snd par) []" by simp
  then have d: "distinguivel T F alf (fst par) (snd par)"
    unfolding distinguivel_def by (intro exI [of _ "[]"]) simp
  have "marcar_trivial F par t = AList.update par True t"
    using True by (simp add: marcar_trivial_def Let_def)
  with assms d show ?thesis
    unfolding marcas_corretas_def by (auto simp: update_conv' split: if_splits)
next
  case False
  then have "marcar_trivial F par t = t" by (simp add: marcar_trivial_def Let_def)
  with assms show ?thesis by simp
qed

lemma marcas_corretas_triviais:
  "marcas_corretas T F alf t \<Longrightarrow> marcas_corretas T F alf (fold (marcar_trivial F) ks t)"
  by (induction ks arbitrary: t) (simp_all add: marcas_corretas_trivial)

lemma varrer_distingue:
  "marcas_corretas T F alf t \<Longrightarrow> set ss \<subseteq> set alf \<Longrightarrow>
   varrer_simbolos T es t e1 e2 ss \<Longrightarrow> distinguivel T F alf e1 e2"
proof (induction ss)
  case Nil
  then show ?case by simp
next
  case (Cons s ss)
  from Cons.prems(2) have s: "s \<in> set alf" and ss: "set ss \<subseteq> set alf" by simp_all
  show ?case
  proof (cases "\<exists>d1 d2. destino T e1 s = Some d1 \<and> destino T e2 s = Some d2 \<and> d1 \<noteq> d2
      \<and> map_of t (obter_par_ordenado es d1 d2) = Some True")
    case True
    then obtain d1 d2 where d: "destino T e1 s = Some d1" "destino T e2 s = Some d2"
      and m: "map_of t (obter_par_ordenado es d1 d2) = Some True" by blast
    have "distinguivel T F alf d1 d2"
    proof (cases "obter_par_ordenado es d1 d2 = (d1, d2)")
      case True
      with m Cons.prems(1) show ?thesis unfolding marcas_corretas_def by simp
    next
      case False
      with obter_par_ordenado_casos [of es d1 d2]
      have "obter_par_ordenado es d1 d2 = (d2, d1)" by simp
      with m Cons.prems(1) have "distinguivel T F alf d2 d1"
        unfolding marcas_corretas_def by simp
      then show ?thesis by (rule distinguivel_sym)
    qed
    with s d show ?thesis by (rule distinguivel_passo)
  next
    case False
    with Cons.prems(3) have "varrer_simbolos T es t e1 e2 ss"
      by (auto split: option.splits if_splits)
    from Cons.IH [OF Cons.prems(1) ss this] show ?thesis .
  qed
qed

lemma marcas_corretas_passada:
  "marcas_corretas T F alf t \<Longrightarrow>
   marcas_corretas T F alf (fst (passada T es alf ps (t, ch)))"
proof (induction ps arbitrary: t ch)
  case Nil
  then show ?case by simp
next
  case (Cons par ps)
  show ?case
  proof (cases "map_of t par \<noteq> Some True \<and> varrer_simbolos T es t (fst par) (snd par) alf")
    case True
    with Cons.prems have "distinguivel T F alf (fst par) (snd par)"
      by (auto intro: varrer_distingue)
    with Cons.prems have "marcas_corretas T F alf (AList.update par True t)"
      unfolding marcas_corretas_def by (auto simp: update_conv' split: if_splits)
    from Cons.IH [OF this] True show ?thesis by simp
  next
    case False
    with Cons.IH [OF Cons.prems] show ?thesis by auto
  qed
qed

lemma marcas_corretas_laco:
  "marcas_corretas T F alf t \<Longrightarrow> marcas_corretas T F alf (fst (laco T es alf t n))"
  by (rule laco_inv [where P = "marcas_corretas T F alf"])
     (simp_all add: marcas_corretas_passada)

lemma inicializar_sem_marcas:
  "\<forall>k. map_of t k \<noteq> Some True \<Longrightarrow>
   \<forall>k. map_of (fold (\<lambda>par t. AList.update par False t) ps t) k \<noteq> Some True"
  by (induction ps arbitrary: t) (simp_all add: update_conv')

lemma marcas_corretas_final:
  "marcas_corretas (self_transicoes (apos_iteracao a)) (self_estados_finais (apos_iteracao a))
     (alfabeto a) (self_tabela_marcacao (apos_iteracao a))"
proof -
  let ?rem = "remover_estados_inalcancaveis (init a)"
  let ?ini = "inicializar_tabela ?rem"
  let ?T = "self_transicoes (apos_iteracao a)"
  let ?F = "self_estados_finais (apos_iteracao a)"
  have t0: "self_tabela_marcacao ?rem = []"
    unfolding remover_estados_inalcancaveis_def by (simp add: Let_def init_def)
  have "\<forall>k. map_of (self_tabela_marcacao ?ini) k \<noteq> Some True"
    unfolding inicializar_tabela_def by (simp add: inicializar_sem_marcas t0)
  then have c0: "marcas_corretas ?T ?F (alfabeto a) (self_tabela_marcacao ?ini)"
    unfolding marcas_corretas_def by simp
  have F: "self_estados_finais ?ini = ?F"
    unfolding apos_iteracao_def marcar_pares_iterativamente_def apos_triviais_def
      marcar_pares_triviais_def by simp
  have "marcas_corretas ?T ?F (alfabeto a) (self_tabela_marcacao (apos_triviais a))"
    unfolding apos_triviais_def marcar_pares_triviais_def
    using c0 by (simp add: F marcas_corretas_triviais)
  then have "marcas_corretas ?T ?F (alfabeto a)
      (fst (laco ?T (self_estados (apos_triviais a)) (alfabeto a)
         (self_tabela_marcacao (apos_triviais a)) 0))"
    by (rule marcas_corretas_laco)
  then show ?thesis
    unfolding apos_iteracao_def marcar_pares_iterativamente_def
    by (simp add: campos_triviais)
qed

lemma aceita_podado:
  assumes "afd_completo a"
  shows "e \<in> set (estados_alcancaveis a) \<Longrightarrow> set w \<subseteq> set (alfabeto a) \<Longrightarrow>
     aceita (self_transicoes (apos_iteracao a)) (self_estados_finais (apos_iteracao a)) e w
     = aceita (transicoes a) (set (estados_finais a)) e w"
proof (induction w arbitrary: e)
  case Nil
  then show ?case by (auto simp: campos_iteracao estados_alcancaveis_def)
next
  case (Cons s w)
  from Cons.prems have s: "s \<in> set (alfabeto a)" and w: "set w \<subseteq> set (alfabeto a)" by simp_all
  from assms Cons.prems(1) s obtain d where d: "destino (transicoes a) e s = Some d"
    "d \<in> set (estados_alcancaveis a)" "destino (self_transicoes (apos_iteracao a)) e s = Some d"
    by (rule completo_passo)
  from Cons.IH [OF d(2) w] d(1,3) show ?case by simp
qed

lemma ligados_aceitam_igual:
  assumes "afd_completo a" and "set w \<subseteq> set (alfabeto a)"
    and "ligados (pares_nao_marcados (estados_alcancaveis a)
           (self_tabela_marcacao (apos_iteracao a))) x y"
  shows "aceita (transicoes a) (set (estados_finais a)) x w
       = aceita (transicoes a) (set (estados_finais a)) y w"
proof -
  let ?t = "self_tabela_marcacao (apos_iteracao a)"
  let ?R = "pares_nao_marcados (estados_alcancaveis a) ?t"
  have dk: "distinct (map fst ?t)" by (rule chaves_distintas_final)
  from assms(3) have "(x, y) \<in> (?R \<union> ?R\<inverse>)\<^sup>*" unfolding ligados_def .
  then show ?thesis
  proof (induction rule: rtrancl_induct)
    case base
    then show ?case by simp
  next
    case (step b c)
    from step.hyps(2) have "aceita (transicoes a) (set (estados_finais a)) b w
       = aceita (transicoes a) (set (estados_finais a)) c w"
    proof
      assume "(b, c) \<in> ?R"
      then have "((b, c), False) \<in> set ?t" unfolding pares_nao_marcados_def by simp
      with dk have "map_of ?t (b, c) = Some False" by simp
      from nao_marcados_aceitam_igual [OF assms(1,2) this] show ?thesis .
    next
      assume "(b, c) \<in> ?R\<inverse>"
      then have "((c, b), False) \<in> set ?t" unfolding pares_nao_marcados_def by simp
      with dk have "map_of ?t (c, b) = Some False" by simp
      from nao_marcados_aceitam_igual [OF assms(1,2) this] show ?thesis by simp
    qed
    with step.IH show ?case by simp
  qed
qed

lemma mesma_classe_ligados:
  assumes "mesma_classe (encontrar_classes_equivalencia m) x y"
  shows "ligados (pares_nao_marcados (self_estados m) (self_tabela_marcacao m)) x y"
proof -
  let ?R = "pares_nao_marcados (self_estados m) (self_tabela_marcacao m)"
  let ?ini = "map (\<lambda>e. {e}) (self_estados m)"
  have u: "\<Union>(set ?ini) = set (self_estados m)" by auto
  have "classes_ligadas ?R ?ini"
    unfolding classes_ligadas_def by (auto simp: ligados_refl)
  then have "classes_ligadas ?R (fold passo_classes (self_tabela_marcacao m) ?ini)"
    using u by (rule classes_ligadas_fold) (auto simp: pares_nao_marcados_def)
  with assms show ?thesis
    unfolding encontrar_classes_equivalencia_def classes_ligadas_def mesma_classe_def
    by blast
qed


lemma nao_marcado_canonico_mesma_classe:
  assumes "map_of (self_tabela_marcacao (apos_iteracao a))
           (obter_par_ordenado (estados_alcancaveis a) x y) = Some False"
  shows "mesma_classe (encontrar_classes_equivalencia (apos_iteracao a)) x y"
proof -
  from obter_par_ordenado_casos [of "estados_alcancaveis a" x y] show ?thesis
  proof
    assume "obter_par_ordenado (estados_alcancaveis a) x y = (x, y)"
    with assms show ?thesis by (simp add: nao_marcado_mesma_classe)
  next
    assume "obter_par_ordenado (estados_alcancaveis a) x y = (y, x)"
    with assms have "mesma_classe (encontrar_classes_equivalencia (apos_iteracao a)) y x"
      by (simp add: nao_marcado_mesma_classe)
    then show ?thesis by (rule mesma_classe_sym)
  qed
qed






section \<open>The last class of a state; classes of a complete automaton move together\<close>

lemma procurar_classe_acumulado:
  "procurar_classe e cs achada =
     (case procurar_classe e cs None of None \<Rightarrow> achada | Some c \<Rightarrow> Some c)"
proof (induction cs arbitrary: achada)
  case Nil
  then show ?case by simp
next
  case (Cons c cs)
  show ?case
    using Cons.IH [of "if e \<in> c then Some c else achada"]
      Cons.IH [of "if e \<in> c then Some c else None"]
    by (auto split: option.splits)
qed

lemma procurar_classe_append:
  "procurar_classe e (cs @ [c]) None = (if e \<in> c then Some c else procurar_classe e cs None)"
proof (induction cs)
  case Nil
  then show ?case by simp
next
  case (Cons c0 cs)
  show ?case
  proof (cases "e \<in> c0")
    case True
    have "procurar_classe e (cs @ [c]) (Some c0)
        = (case procurar_classe e (cs @ [c]) None of None \<Rightarrow> Some c0 | Some l \<Rightarrow> Some l)"
      by (rule procurar_classe_acumulado)
    moreover have "procurar_classe e cs (Some c0)
        = (case procurar_classe e cs None of None \<Rightarrow> Some c0 | Some l \<Rightarrow> Some l)"
      by (rule procurar_classe_acumulado)
    ultimately show ?thesis using True Cons.IH by (auto split: option.splits)
  next
    case False
    with Cons.IH show ?thesis by simp
  qed
qed

lemma procurar_classe_remove1:
  "e \<notin> c \<Longrightarrow> procurar_classe e (remove1 c cs) achada = procurar_classe e cs achada"
  by (induction cs arbitrary: achada) auto

lemma epc_fold_procurar:
  "fold (\<lambda>classe d. (\<lambda>e. if e \<in> classe then Some (nome_classe classe) else d e)) cs d0 e
   = (case procurar_classe e cs None of None \<Rightarrow> d0 e | Some c \<Rightarrow> Some (nome_classe c))"
proof (induction cs arbitrary: d0)
  case Nil
  then show ?case by simp
next
  case (Cons c cs)
  show ?case
  proof (cases "e \<in> c")
    case True
    have "procurar_classe e cs (Some c)
        = (case procurar_classe e cs None of None \<Rightarrow> Some c | Some l \<Rightarrow> Some l)"
      by (rule procurar_classe_acumulado)
    with True Cons.IH [of "\<lambda>e. if e \<in> c then Some (nome_classe c) else d0 e"]
    show ?thesis by (auto split: option.splits)
  next
    case False
    with Cons.IH [of "\<lambda>e. if e \<in> c then Some (nome_classe c) else d0 e"]
    show ?thesis by (auto split: option.splits)
  qed
qed

lemma epc_procurar:
  "estado_para_classe cs e = map_option nome_classe (procurar_classe e cs None)"
  unfolding estado_para_classe_def epc_fold_procurar by (simp split: option.splits)

lemma encaixadas_mesma_ultima:
  assumes "encaixadas cs" and "mesma_classe cs x y"
  shows "procurar_classe x cs None = procurar_classe y cs None"
proof -
  from assms(2) obtain c where c: "c \<in> set cs" "x \<in> c" "y \<in> c"
    unfolding mesma_classe_def by blast
  from assms(1) c obtain lx where lx: "procurar_classe x cs None = Some lx" "c \<subseteq> lx"
    unfolding encaixadas_def by blast
  from assms(1) c obtain ly where ly: "procurar_classe y cs None = Some ly" "c \<subseteq> ly"
    unfolding encaixadas_def by blast
  from lx(1) have ix: "lx \<in> set cs" by (auto dest: procurar_classe_dentro)
  from ly(1) have iy: "ly \<in> set cs" by (auto dest: procurar_classe_dentro)
  from c lx(2) have "y \<in> lx" by auto
  with assms(1) ix ly(1) have "lx \<subseteq> ly" unfolding encaixadas_def by fastforce
  moreover from c ly(2) have "x \<in> ly" by auto
  with assms(1) iy lx(1) have "ly \<subseteq> lx" unfolding encaixadas_def by fastforce
  ultimately show ?thesis using lx(1) ly(1) by simp
qed

lemma epc_mesma_classe_encaixadas:
  "encaixadas cs \<Longrightarrow> mesma_classe cs x y \<Longrightarrow>
   estado_para_classe cs x = estado_para_classe cs y"
  by (simp add: epc_procurar encaixadas_mesma_ultima)

lemma encaixadas_unir:
  assumes "encaixadas cs"
  shows "encaixadas (unir_classes par cs)"
proof -
  from unir_classes_casos [of par cs] show ?thesis
  proof
    assume "unir_classes par cs = cs"
    with assms show ?thesis by simp
  next
    assume "\<exists>c1 c2. c1 \<in> set cs \<and> c2 \<in> set cs \<and> c1 \<noteq> c2 \<and> fst par \<in> c1 \<and> snd par \<in> c2
      \<and> procurar_classe (fst par) cs None = Some c1
      \<and> procurar_classe (snd par) cs None = Some c2
      \<and> unir_classes par cs = remove1 c2 (remove1 c1 cs) @ [c1 \<union> c2]"
    then obtain c1 c2 where c: "c1 \<in> set cs" "c2 \<in> set cs" "fst par \<in> c1" "snd par \<in> c2"
      and p1: "procurar_classe (fst par) cs None = Some c1"
      and p2: "procurar_classe (snd par) cs None = Some c2"
      and u: "unir_classes par cs = remove1 c2 (remove1 c1 cs) @ [c1 \<union> c2]"
      by blast
    let ?rest = "remove1 c2 (remove1 c1 cs)"
    have rest: "set ?rest \<subseteq> set cs"
      using set_remove1_subset [of c2 "remove1 c1 cs"] set_remove1_subset [of c1 cs] by auto
    have ultima: "\<And>x e ce. x \<in> ce \<Longrightarrow> ce \<in> set cs \<Longrightarrow> e \<in> ce \<Longrightarrow>
        procurar_classe e cs None = Some ce \<Longrightarrow> procurar_classe x cs None = Some ce"
    proof -
      fix x e ce
      assume x: "x \<in> ce" and ce: "ce \<in> set cs" and e: "e \<in> ce"
        and pe: "procurar_classe e cs None = Some ce"
      from assms ce x obtain l where l: "procurar_classe x cs None = Some l" "ce \<subseteq> l"
        unfolding encaixadas_def by blast
      from l(1) have "l \<in> set cs" by (auto dest: procurar_classe_dentro)
      moreover from e l(2) have "e \<in> l" by auto
      ultimately have "l \<subseteq> ce" using assms pe unfolding encaixadas_def by fastforce
      with l show "procurar_classe x cs None = Some ce" by auto
    qed
    show ?thesis
      unfolding u encaixadas_def
    proof (intro ballI)
      fix c x
      assume cin: "c \<in> set (?rest @ [c1 \<union> c2])" and x: "x \<in> c"
      show "\<exists>l. procurar_classe x (?rest @ [c1 \<union> c2]) None = Some l \<and> c \<subseteq> l"
      proof (cases "x \<in> c1 \<union> c2")
        case True
        then have pn: "procurar_classe x (?rest @ [c1 \<union> c2]) None = Some (c1 \<union> c2)"
          by (simp add: procurar_classe_append)
        have "c \<subseteq> c1 \<union> c2"
        proof (cases "c = c1 \<union> c2")
          case True
          then show ?thesis by simp
        next
          case False
          with cin rest have cs: "c \<in> set cs" by auto
          from assms cs x obtain l where l: "procurar_classe x cs None = Some l" "c \<subseteq> l"
            unfolding encaixadas_def by blast
          from True show ?thesis
          proof
            assume "x \<in> c1"
            from ultima [OF this c(1) c(3) p1] l show ?thesis by auto
          next
            assume "x \<in> c2"
            from ultima [OF this c(2) c(4) p2] l show ?thesis by auto
          qed
        qed
        with pn show ?thesis by blast
      next
        case False
        then have x1: "x \<notin> c1" and x2: "x \<notin> c2" by auto
        from False x cin rest have cs: "c \<in> set cs" by auto
        from assms cs x obtain l where l: "procurar_classe x cs None = Some l" "c \<subseteq> l"
          unfolding encaixadas_def by blast
        have "procurar_classe x (?rest @ [c1 \<union> c2]) None = procurar_classe x ?rest None"
          using False by (simp add: procurar_classe_append)
        also have "\<dots> = procurar_classe x cs None"
          using x1 x2 by (simp add: procurar_classe_remove1)
        finally show ?thesis using l by simp
      qed
    qed
  qed
qed

lemma encaixadas_fold: "encaixadas cs \<Longrightarrow> encaixadas (fold passo_classes t cs)"
  by (induction t arbitrary: cs) (simp_all add: passo_classes_def encaixadas_unir)

lemma procurar_classe_unitarios:
  "procurar_classe x (map (\<lambda>e. {e}) es) None = (if x \<in> set es then Some {x} else None)"
proof (induction es rule: rev_induct)
  case Nil
  then show ?case by simp
next
  case (snoc e es)
  then show ?case by (auto simp: procurar_classe_append)
qed

lemma encaixadas_unitarios: "encaixadas (map (\<lambda>e. {e}) es)"
  unfolding encaixadas_def by (auto simp: procurar_classe_unitarios)

lemma encaixadas_encontrar: "encaixadas (encontrar_classes_equivalencia m)"
  unfolding encontrar_classes_equivalencia_def
  by (rule encaixadas_fold) (rule encaixadas_unitarios)

lemma equivalentes_mesma_classe:
  assumes "afd_completo a"
    and "x \<in> set (estados_alcancaveis a)" and "y \<in> set (estados_alcancaveis a)"
    and "\<forall>w. set w \<subseteq> set (alfabeto a) \<longrightarrow>
           aceita (transicoes a) (set (estados_finais a)) x w
           = aceita (transicoes a) (set (estados_finais a)) y w"
  shows "mesma_classe (encontrar_classes_equivalencia (apos_iteracao a)) x y"
proof (cases "x = y")
  case True
  from assms(2) have "x \<in> \<Union>(set (encontrar_classes_equivalencia (apos_iteracao a)))"
    by (simp add: uniao_classes campos_iteracao)
  with True show ?thesis unfolding mesma_classe_def by auto
next
  case False
  let ?m = "apos_iteracao a"
  let ?es = "estados_alcancaveis a"
  let ?t = "self_tabela_marcacao ?m"
  let ?k = "obter_par_ordenado ?es x y"
  from obter_par_ordenado_canonico [OF assms(2,3) False]
  have k: "?k \<in> set (pares_de ?es)" and or: "?k = (x, y) \<or> ?k = (y, x)" by simp_all
  have "map_of ?t ?k \<noteq> Some True"
  proof
    assume "map_of ?t ?k = Some True"
    with marcas_corretas_final [of a]
    have "distinguivel (self_transicoes ?m) (self_estados_finais ?m) (alfabeto a)
        (fst ?k) (snd ?k)" unfolding marcas_corretas_def by (cases ?k) auto
    with or have "distinguivel (self_transicoes ?m) (self_estados_finais ?m) (alfabeto a) x y"
      by (auto dest: distinguivel_sym)
    then obtain w where w: "set w \<subseteq> set (alfabeto a)"
      and ne: "aceita (self_transicoes ?m) (self_estados_finais ?m) x w
        \<noteq> aceita (self_transicoes ?m) (self_estados_finais ?m) y w"
      unfolding distinguivel_def by blast
    from ne aceita_podado [OF assms(1,2) w] aceita_podado [OF assms(1,3) w]
    have "aceita (transicoes a) (set (estados_finais a)) x w
        \<noteq> aceita (transicoes a) (set (estados_finais a)) y w" by simp
    with assms(4) w show False by simp
  qed
  with k have "map_of ?t ?k = Some False" by (rule tabela_final_valor)
  then show ?thesis by (rule nao_marcado_canonico_mesma_classe)
qed

lemma mesma_classe_aceitam_igual:
  assumes "afd_completo a" and "set w \<subseteq> set (alfabeto a)"
    and "mesma_classe (encontrar_classes_equivalencia (apos_iteracao a)) x y"
  shows "aceita (transicoes a) (set (estados_finais a)) x w
       = aceita (transicoes a) (set (estados_finais a)) y w"
proof -
  from mesma_classe_ligados [OF assms(3)]
  have "ligados (pares_nao_marcados (estados_alcancaveis a)
      (self_tabela_marcacao (apos_iteracao a))) x y" by (simp add: campos_iteracao)
  with assms(1,2) show ?thesis by (rule ligados_aceitam_igual)
qed

lemma destinos_na_mesma_classe:
  assumes "afd_completo a"
    and "mesma_classe (encontrar_classes_equivalencia (apos_iteracao a)) x y"
    and "s \<in> set (alfabeto a)"
  shows "\<exists>d1 d2. destino (self_transicoes (apos_iteracao a)) x s = Some d1
      \<and> destino (self_transicoes (apos_iteracao a)) y s = Some d2
      \<and> mesma_classe (encontrar_classes_equivalencia (apos_iteracao a)) d1 d2"
proof -
  let ?m = "apos_iteracao a"
  let ?es = "estados_alcancaveis a"
  let ?cs = "encontrar_classes_equivalencia ?m"
  have un: "\<Union>(set ?cs) = set ?es" by (simp add: uniao_classes campos_iteracao)
  from assms(2) un have x: "x \<in> set ?es" and y: "y \<in> set ?es"
    unfolding mesma_classe_def by auto
  from assms(1) x assms(3) obtain d1 where d1: "destino (transicoes a) x s = Some d1"
    "d1 \<in> set ?es" "destino (self_transicoes ?m) x s = Some d1" by (rule completo_passo)
  from assms(1) y assms(3) obtain d2 where d2: "destino (transicoes a) y s = Some d2"
    "d2 \<in> set ?es" "destino (self_transicoes ?m) y s = Some d2" by (rule completo_passo)
  have "\<forall>w. set w \<subseteq> set (alfabeto a) \<longrightarrow>
           aceita (transicoes a) (set (estados_finais a)) d1 w
           = aceita (transicoes a) (set (estados_finais a)) d2 w"
  proof (intro allI impI)
    fix w assume "set w \<subseteq> set (alfabeto a)"
    with assms(3) have "set (s # w) \<subseteq> set (alfabeto a)" by simp
    from mesma_classe_aceitam_igual [OF assms(1) this assms(2)] d1(1) d2(1)
    show "aceita (transicoes a) (set (estados_finais a)) d1 w
        = aceita (transicoes a) (set (estados_finais a)) d2 w" by simp
  qed
  with assms(1) d1(2) d2(2) have "mesma_classe ?cs d1 d2" by (rule equivalentes_mesma_classe)
  with d1(3) d2(3) show ?thesis by blast
qed

lemma transicoes_nao_dependem_da_ordem:
  assumes "ordem_valida ordem1" and "ordem_valida ordem2" and "afd_completo a"
  shows "transicoes_novas ordem1 (self_transicoes (apos_iteracao a))
           (estado_para_classe (encontrar_classes_equivalencia (apos_iteracao a)))
           (self_alfabeto (apos_iteracao a))
           (encontrar_classes_equivalencia (apos_iteracao a)) []
       = transicoes_novas ordem2 (self_transicoes (apos_iteracao a))
           (estado_para_classe (encontrar_classes_equivalencia (apos_iteracao a)))
           (self_alfabeto (apos_iteracao a))
           (encontrar_classes_equivalencia (apos_iteracao a)) []"
proof (rule transicoes_novas_cong, rule ballI)
  let ?m = "apos_iteracao a"
  let ?cs = "encontrar_classes_equivalencia ?m"
  let ?epc = "estado_para_classe ?cs"
  fix c assume c: "c \<in> set ?cs"
  with classes_finitas_encontrar [of ?m] have f: "finite c" "c \<noteq> {}"
    unfolding classes_finitas_def by auto
  from assms(1) f obtain r1 x1 where o1: "ordem1 c = r1 # x1" and r1: "r1 \<in> c"
    by (rule ordem_representante)
  from assms(2) f obtain r2 x2 where o2: "ordem2 c = r2 # x2" and r2: "r2 \<in> c"
    by (rule ordem_representante)
  from c r1 r2 have mc: "mesma_classe ?cs r1 r2" unfolding mesma_classe_def by blast
  have en: "encaixadas ?cs" by (rule encaixadas_encontrar)
  have "\<forall>s\<in>set (self_alfabeto ?m). \<exists>d1 d2. destino (self_transicoes ?m) r1 s = Some d1
      \<and> destino (self_transicoes ?m) r2 s = Some d2 \<and> ?epc d1 = ?epc d2"
  proof
    fix s assume "s \<in> set (self_alfabeto ?m)"
    then have "s \<in> set (alfabeto a)" by (simp add: campos_iteracao)
    from destinos_na_mesma_classe [OF assms(3) mc this] obtain d1 d2 where
      "destino (self_transicoes ?m) r1 s = Some d1"
      "destino (self_transicoes ?m) r2 s = Some d2" "mesma_classe ?cs d1 d2" by blast
    with en show "\<exists>d1 d2. destino (self_transicoes ?m) r1 s = Some d1
      \<and> destino (self_transicoes ?m) r2 s = Some d2 \<and> ?epc d1 = ?epc d2"
      by (auto dest: epc_mesma_classe_encaixadas)
  qed
  then have "transicoes_classe (self_transicoes ?m) ?epc r1 (self_alfabeto ?m) []
      = transicoes_classe (self_transicoes ?m) ?epc r2 (self_alfabeto ?m) []"
    by (rule transicoes_classe_cong)
  with o1 o2 show "\<exists>r1 x1 r2 x2. ordem1 c = r1 # x1 \<and> ordem2 c = r2 # x2
      \<and> transicoes_classe (self_transicoes ?m) ?epc r1 (self_alfabeto ?m) []
        = transicoes_classe (self_transicoes ?m) ?epc r2 (self_alfabeto ?m) []" by blast
qed

section \<open>Two runs with different iteration orders\<close>

lemma parcial_inversa:
  "minimizar ordem_inversa afd_parcial =
     Inr \<lparr> estados = [''{f}'', ''{p,q,r,t}''],
           alfabeto = [''a'', ''b'', ''c''],
           estado_inicial = ''{p,q,r,t}'',
           estados_finais = [''{f}''],
           transicoes = [(''{f}'', []), (''{p,q,r,t}'', [])] \<rparr>"
  by code_simp

text \<open>
  Claim C8 fails as stated: the list of accepting states is \<^verbatim>\<open>list(set(...))\<close> and the
  representative is \<^verbatim>\<open>list(classe)[0]\<close>, both in the iteration order of a set of
  strings. Under two valid orders, the complete automaton with two accepting classes
  gets two different accepting lists, and the partial automaton two different
  transition dictionaries.
\<close>

theorem ordem_muda_saida:
  "ordem_valida sorted_list_of_set \<and> ordem_valida ordem_inversa
   \<and> minimizar sorted_list_of_set afd_dois_finais =
       Inr \<lparr> estados = [''{x}'', ''{y}'', ''{z}''],
             alfabeto = [''a''],
             estado_inicial = ''{x}'',
             estados_finais = [''{x}'', ''{y}''],
             transicoes = [(''{x}'', [(''a'', ''{y}'')]), (''{y}'', [(''a'', ''{z}'')]),
                           (''{z}'', [(''a'', ''{z}'')])] \<rparr>
   \<and> minimizar ordem_inversa afd_dois_finais =
       Inr \<lparr> estados = [''{x}'', ''{y}'', ''{z}''],
             alfabeto = [''a''],
             estado_inicial = ''{x}'',
             estados_finais = [''{y}'', ''{x}''],
             transicoes = [(''{x}'', [(''a'', ''{y}'')]), (''{y}'', [(''a'', ''{z}'')]),
                           (''{z}'', [(''a'', ''{z}'')])] \<rparr>
   \<and> minimizar sorted_list_of_set afd_dois_finais \<noteq> minimizar ordem_inversa afd_dois_finais
   \<and> minimizar sorted_list_of_set afd_parcial \<noteq> minimizar ordem_inversa afd_parcial"
  unfolding dois_finais_sorted dois_finais_inversa parcial_minimizar parcial_inversa
  by (simp add: ordem_valida_sorted ordem_valida_inversa)

text \<open>
  Claim C8, amended. Two successful runs on the same input, under any two iteration
  orders, give the same state list (names and order), the same alphabet, the same start
  state, the same set of accepting states and the same sequence of sources of the
  transition dictionary. When the automaton is complete on its reachable states, the two
  transition dictionaries are equal, so that the two results differ at most in the order
  of the list of accepting states.
\<close>

theorem saida_independente_da_ordem:
  assumes "ordem_valida ordem1" and "ordem_valida ordem2"
    and "minimizar ordem1 a = Inr r1" and "minimizar ordem2 a = Inr r2"
  shows "estados r1 = estados r2
    \<and> alfabeto r1 = alfabeto r2
    \<and> estado_inicial r1 = estado_inicial r2
    \<and> set (estados_finais r1) = set (estados_finais r2)
    \<and> map fst (transicoes r1) = map fst (transicoes r2)
    \<and> (afd_completo a \<longrightarrow> transicoes r1 = transicoes r2)"
proof -
  let ?m = "apos_iteracao a"
  let ?cs = "encontrar_classes_equivalencia ?m"
  have c1: "construir_afd_minimizado ordem1 ?m ?cs = Inr r1"
    using assms(3) by (rule minimizar_Inr)
  have c2: "construir_afd_minimizado ordem2 ?m ?cs = Inr r2"
    using assms(4) by (rule minimizar_Inr)
  from c1 obtain n1 nt1 where
    i1: "estado_para_classe ?cs (self_estado_inicial ?m) = Some n1"
    and t1: "transicoes_novas ordem1 (self_transicoes ?m) (estado_para_classe ?cs)
           (self_alfabeto ?m) ?cs [] = Inr nt1"
    and r1: "estados r1 = map nome_classe ?cs" "alfabeto r1 = self_alfabeto ?m"
      "estado_inicial r1 = n1" "transicoes r1 = nt1"
    by (rule construir_Inr) simp
  from c2 obtain n2 nt2 where
    i2: "estado_para_classe ?cs (self_estado_inicial ?m) = Some n2"
    and t2: "transicoes_novas ordem2 (self_transicoes ?m) (estado_para_classe ?cs)
           (self_alfabeto ?m) ?cs [] = Inr nt2"
    and r2: "estados r2 = map nome_classe ?cs" "alfabeto r2 = self_alfabeto ?m"
      "estado_inicial r2 = n2" "transicoes r2 = nt2"
    by (rule construir_Inr) simp
  have "map fst nt1 = map fst nt2"
    using t1 t2 by (rule transicoes_novas_chaves) simp
  moreover have "set (estados_finais r1) = set (estados_finais r2)"
    using construir_finais [OF assms(1) finais_finitos c1]
      construir_finais [OF assms(2) finais_finitos c2] by simp
  moreover have "afd_completo a \<longrightarrow> nt1 = nt2"
  proof
    assume "afd_completo a"
    with transicoes_nao_dependem_da_ordem [OF assms(1,2), of a] t1 t2 show "nt1 = nt2"
      by simp
  qed
  ultimately show ?thesis using i1 i2 r1 r2 by simp
qed

lemma dois_finais_completo: "afd_completo afd_dois_finais"
proof -
  have "estados_alcancaveis afd_dois_finais = [''x'', ''y'', ''z'']" by code_simp
  then show ?thesis
    unfolding afd_completo_def by (simp add: afd_dois_finais_def destino_def)
qed

theorem saida_independente_da_ordem_witness:
  "set [''{x}'', ''{y}''] = set [''{y}'', ''{x}'']
   \<and> transicoes
       \<lparr> estados = [''{x}'', ''{y}'', ''{z}''],
         alfabeto = [''a''],
         estado_inicial = ''{x}'',
         estados_finais = [''{x}'', ''{y}''],
         transicoes = [(''{x}'', [(''a'', ''{y}'')]), (''{y}'', [(''a'', ''{z}'')]),
                       (''{z}'', [(''a'', ''{z}'')])] \<rparr>
     = transicoes
       \<lparr> estados = [''{x}'', ''{y}'', ''{z}''],
         alfabeto = [''a''],
         estado_inicial = ''{x}'',
         estados_finais = [''{y}'', ''{x}''],
         transicoes = [(''{x}'', [(''a'', ''{y}'')]), (''{y}'', [(''a'', ''{z}'')]),
                       (''{z}'', [(''a'', ''{z}'')])] \<rparr>"
  using saida_independente_da_ordem [OF ordem_valida_sorted ordem_valida_inversa
      dois_finais_sorted dois_finais_inversa] dois_finais_completo
  by simp

section \<open>The transitions of a class and those of its members\<close>

text \<open>
  Claim C7 fails as stated: stage 4 makes no check of the other members of a class. On the
  partial automaton the class of \<open>p\<close>, \<open>q\<close>, \<open>r\<close> and \<open>t\<close> has two members whose
  destinations on \<open>a\<close> lie in different classes (\<open>p\<close> goes to \<open>f\<close>, \<open>q\<close> goes to \<open>t\<close>),
  and the reducer still returns an automaton, built from the representative \<open>p\<close>.
\<close>

theorem representante_sem_verificacao:
  "encontrar_classes_equivalencia (apos_iteracao afd_parcial)
     = [{''f''}, {''p'', ''q'', ''r'', ''t''}]
   \<and> destino (self_transicoes (apos_iteracao afd_parcial)) ''p'' ''a'' = Some ''f''
   \<and> destino (self_transicoes (apos_iteracao afd_parcial)) ''q'' ''a'' = Some ''t''
   \<and> estado_para_classe [{''f''}, {''p'', ''q'', ''r'', ''t''}] ''f'' = Some ''{f}''
   \<and> estado_para_classe [{''f''}, {''p'', ''q'', ''r'', ''t''}] ''t'' = Some ''{p,q,r,t}''
   \<and> construir_afd_minimizado sorted_list_of_set (apos_iteracao afd_parcial)
       (encontrar_classes_equivalencia (apos_iteracao afd_parcial)) =
       Inr \<lparr> estados = [''{f}'', ''{p,q,r,t}''],
             alfabeto = [''a'', ''b'', ''c''],
             estado_inicial = ''{p,q,r,t}'',
             estados_finais = [''{f}''],
             transicoes = [(''{f}'', []),
                           (''{p,q,r,t}'', [(''a'', ''{f}''), (''b'', ''{p,q,r,t}''),
                                            (''c'', ''{p,q,r,t}'')])] \<rparr>"
  unfolding parcial_classes parcial_construir
  by (simp add: parcial_destinos parcial_epc)

text \<open>
  Claim C7, amended. Stage 4 makes no check and has no \<^verbatim>\<open>InvariantViolation\<close> error.
  When the run returns an automaton (class names taken to be distinct), the transition of
  a class on a symbol of the alphabet is the class of the destination of its
  representative \<^verbatim>\<open>list(classe)[0]\<close>, and is absent when the representative has no
  destination. For an automaton that is complete on its reachable states, every member of
  the class has its destination in that same class, so the condition that is not checked
  does hold.
\<close>

theorem transicao_do_representante:
  assumes "ordem_valida ordem" and "minimizar ordem a = Inr r"
    and "distinct (map nome_classe (encontrar_classes_equivalencia (apos_iteracao a)))"
    and "classe \<in> set (encontrar_classes_equivalencia (apos_iteracao a))"
    and "ordem classe = representante # resto"
    and "s \<in> set (alfabeto a)"
  shows "destino (transicoes r) (nome_classe classe) s =
       (case destino (self_transicoes (apos_iteracao a)) representante s of
          None \<Rightarrow> None
        | Some d \<Rightarrow> estado_para_classe (encontrar_classes_equivalencia (apos_iteracao a)) d)
    \<and> (afd_completo a \<longrightarrow>
         (\<forall>e\<in>classe. \<exists>d. destino (self_transicoes (apos_iteracao a)) e s = Some d
            \<and> estado_para_classe (encontrar_classes_equivalencia (apos_iteracao a)) d
              = destino (transicoes r) (nome_classe classe) s))"
proof (intro conjI impI ballI)
  let ?m = "apos_iteracao a"
  let ?cs = "encontrar_classes_equivalencia ?m"
  have c: "construir_afd_minimizado ordem ?m ?cs = Inr r"
    using assms(2) by (rule minimizar_Inr)
  have s: "s \<in> set (self_alfabeto ?m)" using assms(6) by (simp add: campos_iteracao)
  from construido_do_representante [OF c assms(3,4,5) s]
  show rep: "destino (transicoes r) (nome_classe classe) s =
       (case destino (self_transicoes ?m) representante s of
          None \<Rightarrow> None
        | Some d \<Rightarrow> estado_para_classe ?cs d)" .
  fix e
  assume h: "afd_completo a" and e: "e \<in> classe"
  from classes_finitas_encontrar [of ?m] assms(4) have "finite classe"
    unfolding classes_finitas_def by blast
  with assms(1,5) have "representante \<in> classe"
    unfolding ordem_valida_def by (metis list.set_intros(1))
  with e assms(4) have "mesma_classe ?cs e representante" unfolding mesma_classe_def by blast
  with h assms(6) obtain d1 d2 where d1: "destino (self_transicoes ?m) e s = Some d1"
    and d2: "destino (self_transicoes ?m) representante s = Some d2"
    and mc: "mesma_classe ?cs d1 d2"
    using destinos_na_mesma_classe [of a e representante s] by blast
  have "encaixadas ?cs" by (rule encaixadas_encontrar)
  from epc_mesma_classe_encaixadas [OF this mc] rep d1 d2
  show "\<exists>d. destino (self_transicoes ?m) e s = Some d
            \<and> estado_para_classe ?cs d = destino (transicoes r) (nome_classe classe) s"
    by simp
qed

theorem transicao_do_representante_witness:
  "destino
     [(''{f}'', []),
      (''{p,q,r,t}'', [(''a'', ''{f}''), (''b'', ''{p,q,r,t}''), (''c'', ''{p,q,r,t}'')])]
     (nome_classe {''p'', ''q'', ''r'', ''t''}) ''a''
   = estado_para_classe [{''f''}, {''p'', ''q'', ''r'', ''t''}] ''f''"
proof -
  have n: "distinct (map nome_classe (encontrar_classes_equivalencia (apos_iteracao afd_parcial)))"
    unfolding parcial_classes by (rule parcial_nomes)
  have c: "{''p'', ''q'', ''r'', ''t''}
      \<in> set (encontrar_classes_equivalencia (apos_iteracao afd_parcial))"
    unfolding parcial_classes by simp
  have s: "''a'' \<in> set (alfabeto afd_parcial)" by (simp add: afd_parcial_def)
  from transicao_do_representante [OF ordem_valida_sorted parcial_minimizar n c parcial_ordem s]
  show ?thesis unfolding parcial_classes by (simp add: parcial_destinos)
qed

end
